theory Spec2Isabelle
  imports Complex_Main "HOL-Library.Word"
begin

section \<open>The Device binding of frida-node (src/device.cc)\<close>

text \<open>
  The file binds one native, reference-counted \<^verbatim>\<open>FridaDevice\<close> to a host (JavaScript)
  object. Each host-visible method validates its arguments, creates one operation
  object and returns the operation's promise; the operation's \<^verbatim>\<open>End\<close> fetches
  the native result and its \<^verbatim>\<open>Result\<close> marshals it into a host value.

  The C++ member names end in an underscore (\<^verbatim>\<open>pid_\<close>, \<^verbatim>\<open>argv_\<close>). Such
  names cannot be qualified here, and \<^verbatim>\<open>pid_\<close> is a member of several classes, so a
  member \<^verbatim>\<open>m_\<close> of the class \<^verbatim>\<open>XOperation\<close> is the field \<open>x_m\<close>.
\<close>

subsection \<open>Host values\<close>

text \<open>
  A host number is an IEEE double. Every finite double is a real number, so a finite
  number is modelled by its real value; the three non-finite doubles are constructors.
\<close>

datatype jsnumber = Fin real | NaN | PosInfinity | NegInfinity

type_synonym gobject = nat \<comment> \<open>a non-NULL pointer to a reference-counted native object\<close>

datatype kind = ApplicationKind | ProcessKind | SessionKind | IconKind | EventsKind | DeviceKind

text \<open>
  An array is a mutable host object: the value is a reference, the elements live in the
  array store of the world. A wrapper is a host object of some kind that holds one
  native handle; its last component is the identity of the host object.
\<close>

datatype jsvalue =
    JUndefined
  | JNull
  | JBoolean bool
  | JNumber jsnumber
  | JString string
  | JArray nat
  | JExternal gobject
  | JWrapper kind gobject nat

fun IsNumber :: "jsvalue \<Rightarrow> bool" where
  "IsNumber (JNumber n) = True"
| "IsNumber v = False"

fun IsString :: "jsvalue \<Rightarrow> bool" where
  "IsString (JString s) = True"
| "IsString v = False"

fun IsArray :: "jsvalue \<Rightarrow> bool" where
  "IsArray (JArray r) = True"
| "IsArray v = False"

subsection \<open>Number to integer\<close>

definition INT64_MIN :: int where
  "INT64_MIN = - (2 ^ 63)"

definition INT64_MAX :: int where
  "INT64_MAX = 2 ^ 63 - 1"

definition trunc :: "real \<Rightarrow> int" where
  "trunc x = (if x < 0 then \<lceil>x\<rceil> else \<lfloor>x\<rfloor>)"

text \<open>
  \<^verbatim>\<open>info[0]->ToInteger()->Value()\<close> on a number. \<^verbatim>\<open>ToInteger\<close> maps NaN to 0,
  truncates a finite number towards zero and keeps an infinity. \<^verbatim>\<open>Value()\<close> is then
  a C++ conversion of that double to \<^verbatim>\<open>int64_t\<close>. Inside the range of
  \<^verbatim>\<open>int64_t\<close> the conversion is exact. Outside of it C++ leaves the result to the
  hardware: below the range both the x86-64 and the ARM64 conversion give the least
  \<^verbatim>\<open>int64_t\<close>; above the range they differ (the least value on x86-64, the greatest on
  ARM64), so that result is the parameter \<open>ovf\<close>.
\<close>

fun ToInteger_Value :: "int \<Rightarrow> jsnumber \<Rightarrow> int" where
  "ToInteger_Value ovf NaN = 0"
| "ToInteger_Value ovf (Fin x) =
     (if trunc x < INT64_MIN then INT64_MIN
      else if INT64_MAX < trunc x then ovf
      else trunc x)"
| "ToInteger_Value ovf PosInfinity = ovf"
| "ToInteger_Value ovf NegInfinity = INT64_MIN"

type_synonym guint = "32 word"

text \<open>\<^verbatim>\<open>static_cast<guint>(pid)\<close> of an \<^verbatim>\<open>int64_t\<close>: the low 32 bits.\<close>

definition static_cast_guint :: "int \<Rightarrow> guint" where
  "static_cast_guint pid = word_of_int pid"

subsection \<open>Outcome of a host-visible method\<close>

text \<open>
  A method either throws a TypeError at the call site and returns with no return value
  and no operation, or it creates one operation, schedules it on the wrapper and returns
  the operation's promise. \<open>Crash\<close> is a write through a NULL pointer.
\<close>

datatype 'op outcome = ThrowTypeError string | Scheduled 'op | Crash

subsection \<open>The type accessor\<close>

text \<open>
  The native enum \<^verbatim>\<open>FridaDeviceType\<close> is a C enum, that is an integer; the library
  declares its three values in this order.
\<close>

definition FRIDA_DEVICE_TYPE_LOCAL :: int where
  "FRIDA_DEVICE_TYPE_LOCAL = 0"

definition FRIDA_DEVICE_TYPE_TETHER :: int where
  "FRIDA_DEVICE_TYPE_TETHER = 1"

definition FRIDA_DEVICE_TYPE_REMOTE :: int where
  "FRIDA_DEVICE_TYPE_REMOTE = 2"

text \<open>
  A property getter returns a value, or the process is aborted by
  \<^verbatim>\<open>g_assert_not_reached()\<close>. It has no path that throws.
\<close>

datatype getter_result = Value jsvalue | Abort

text \<open>\<^verbatim>\<open>Device::GetType\<close>, as a function of what \<^verbatim>\<open>frida_device_get_dtype\<close> returns.\<close>

definition GetType :: "int \<Rightarrow> getter_result" where
  "GetType dtype =
     (if dtype = FRIDA_DEVICE_TYPE_LOCAL then Value (JString ''local'')
      else if dtype = FRIDA_DEVICE_TYPE_TETHER then Value (JString ''tether'')
      else if dtype = FRIDA_DEVICE_TYPE_REMOTE then Value (JString ''remote'')
      else Abort)"

subsection \<open>resume, kill and attach\<close>

record ResumeOperation =
  resume_pid :: guint

record KillOperation =
  kill_pid :: guint

text \<open>\<^verbatim>\<open>session_\<close> of an AttachOperation is written by \<^verbatim>\<open>End\<close> only.\<close>

record AttachOperation =
  attach_pid :: guint

definition Resume :: "int \<Rightarrow> jsvalue list \<Rightarrow> ResumeOperation outcome" where
  "Resume ovf info =
     (if length info < 1 \<or> \<not> IsNumber (info ! 0)
      then ThrowTypeError ''Bad argument, expected pid''
      else (case info ! 0 of
              JNumber n \<Rightarrow>
                (let pid = ToInteger_Value ovf n in
                 if pid \<le> 0 then ThrowTypeError ''Bad argument, expected pid''
                 else Scheduled \<lparr>resume_pid = static_cast_guint pid\<rparr>)
            | _ \<Rightarrow> ThrowTypeError ''Bad argument, expected pid''))"

definition Kill :: "int \<Rightarrow> jsvalue list \<Rightarrow> KillOperation outcome" where
  "Kill ovf info =
     (if length info < 1 \<or> \<not> IsNumber (info ! 0)
      then ThrowTypeError ''Bad argument, expected pid''
      else (case info ! 0 of
              JNumber n \<Rightarrow>
                (let pid = ToInteger_Value ovf n in
                 if pid \<le> 0 then ThrowTypeError ''Bad argument, expected pid''
                 else Scheduled \<lparr>kill_pid = static_cast_guint pid\<rparr>)
            | _ \<Rightarrow> ThrowTypeError ''Bad argument, expected pid''))"

definition Attach :: "int \<Rightarrow> jsvalue list \<Rightarrow> AttachOperation outcome" where
  "Attach ovf info =
     (if length info < 1 \<or> \<not> IsNumber (info ! 0)
      then ThrowTypeError ''Bad argument, expected pid''
      else (case info ! 0 of
              JNumber n \<Rightarrow>
                (let pid = ToInteger_Value ovf n in
                 if pid \<le> 0 then ThrowTypeError ''Bad argument, expected pid''
                 else Scheduled \<lparr>attach_pid = static_cast_guint pid\<rparr>)
            | _ \<Rightarrow> ThrowTypeError ''Bad argument, expected pid''))"

text \<open>
  "The value of the number is at most 0", read on the double itself: NaN compares
  with nothing.
\<close>

fun value_le_zero :: "jsnumber \<Rightarrow> bool" where
  "value_le_zero (Fin x) = (x \<le> 0)"
| "value_le_zero NegInfinity = True"
| "value_le_zero NaN = False"
| "value_le_zero PosInfinity = False"

subsection \<open>The world\<close>

text \<open>
  The part of the process that the binding reads and writes: the memory that GLib
  allocates (\<^verbatim>\<open>g_new0\<close>, \<^verbatim>\<open>g_strdup\<close>, \<^verbatim>\<open>g_free\<close>), the process environment,
  the host arrays, the reference counts of the native objects and the contents of the
  native lists. An address is an index into \<open>memory\<close>; a released block stays in the
  list as \<open>None\<close>, so an address is never handed out twice. \<open>freed\<close> logs every
  \<^verbatim>\<open>g_free\<close> of a non-NULL pointer and \<open>trace\<close> logs every change of a reference
  count, both in program order.
\<close>

type_synonym addr = nat

type_synonym ptr = "addr option" \<comment> \<open>\<open>None\<close> is NULL\<close>

datatype cell =
    Chars string \<comment> \<open>a \<^verbatim>\<open>gchar\<close> buffer holding a NUL-terminated string\<close>
  | Slots "ptr list" \<comment> \<open>an array of \<^verbatim>\<open>gchar *\<close>\<close>

datatype event = Ref gobject | Unref gobject | Wrapped kind gobject

record world =
  memory :: "cell option list"
  freed :: "addr list"
  environ :: "string list"
  arrays :: "nat \<Rightarrow> jsvalue list"
  next_id :: nat
  refcount :: "gobject \<Rightarrow> nat"
  native_list :: "gobject \<Rightarrow> gobject list"
  trace :: "event list"

definition cell_at :: "world \<Rightarrow> addr \<Rightarrow> cell option" where
  "cell_at w a = (if a < length (memory w) then memory w ! a else None)"

definition allocate :: "cell \<Rightarrow> world \<Rightarrow> addr \<times> world" where
  "allocate c w = (length (memory w), w\<lparr>memory := memory w @ [Some c]\<rparr>)"

text \<open>\<^verbatim>\<open>g_free\<close>: nothing on NULL.\<close>

definition g_free :: "ptr \<Rightarrow> world \<Rightarrow> world" where
  "g_free p w =
     (case p of
        None \<Rightarrow> w
      | Some a \<Rightarrow> w\<lparr>memory := (memory w)[a := None], freed := freed w @ [a]\<rparr>)"

text \<open>\<^verbatim>\<open>g_strdup\<close>: NULL on NULL, else a new buffer with the same string.\<close>

definition g_strdup :: "string option \<Rightarrow> world \<Rightarrow> ptr \<times> world" where
  "g_strdup str w =
     (case str of
        None \<Rightarrow> (None, w)
      | Some s \<Rightarrow> (let (a, w') = allocate (Chars s) w in (Some a, w')))"

text \<open>
  \<^verbatim>\<open>g_new0 (gchar *, n_structs)\<close>: NULL when \<open>n_structs\<close> is 0, else a new array of
  \<open>n_structs\<close> NULL pointers.
\<close>

definition g_new0 :: "nat \<Rightarrow> world \<Rightarrow> ptr \<times> world" where
  "g_new0 n_structs w =
     (if n_structs = 0 then (None, w)
      else (let (a, w') = allocate (Slots (replicate n_structs None)) w in (Some a, w')))"

text \<open>The strings of a NULL-terminated array: the slots before the first NULL.\<close>

definition strv_slots :: "world \<Rightarrow> ptr \<Rightarrow> ptr list" where
  "strv_slots w str_array =
     (case str_array of
        None \<Rightarrow> []
      | Some a \<Rightarrow>
          (case cell_at w a of
             Some (Slots ps) \<Rightarrow> takeWhile (\<lambda>p. p \<noteq> None) ps
           | _ \<Rightarrow> []))"

text \<open>
  \<^verbatim>\<open>g_strfreev\<close>: nothing on NULL, else frees every string of the array and then the
  array.
\<close>

definition g_strfreev :: "ptr \<Rightarrow> world \<Rightarrow> world" where
  "g_strfreev str_array w =
     (case str_array of
        None \<Rightarrow> w
      | Some a \<Rightarrow> g_free (Some a) (fold g_free (strv_slots w str_array) w))"

definition g_strv_length :: "world \<Rightarrow> ptr \<Rightarrow> nat" where
  "g_strv_length w str_array = length (strv_slots w str_array)"

text \<open>The string a \<^verbatim>\<open>gchar *\<close> points to; \<open>None\<close> for NULL and for a released block.\<close>

definition read_string :: "world \<Rightarrow> ptr \<Rightarrow> string option" where
  "read_string w p =
     (case p of
        None \<Rightarrow> None
      | Some a \<Rightarrow> (case cell_at w a of Some (Chars s) \<Rightarrow> Some s | _ \<Rightarrow> None))"

text \<open>\<^verbatim>\<open>argv[i]\<close> as a read.\<close>

definition read_slot :: "world \<Rightarrow> ptr \<Rightarrow> nat \<Rightarrow> ptr" where
  "read_slot w arr i =
     (case arr of
        None \<Rightarrow> None
      | Some a \<Rightarrow>
          (case cell_at w a of
             Some (Slots ps) \<Rightarrow> (if i < length ps then ps ! i else None)
           | _ \<Rightarrow> None))"

text \<open>
  \<^verbatim>\<open>argv[i] = p\<close> as a write: \<open>None\<close> is the crash of a write through NULL, through a
  released pointer or past the end of the array.
\<close>

definition write_slot :: "ptr \<Rightarrow> nat \<Rightarrow> ptr \<Rightarrow> world \<Rightarrow> world option" where
  "write_slot arr i p w =
     (case arr of
        None \<Rightarrow> None
      | Some a \<Rightarrow>
          (case cell_at w a of
             Some (Slots ps) \<Rightarrow>
               (if i < length ps
                then Some (w\<lparr>memory := (memory w)[a := Some (Slots (ps[i := p]))]\<rparr>)
                else None)
           | _ \<Rightarrow> None))"

text \<open>The \<open>n\<close> addresses that follow the address \<open>a\<close>.\<close>

definition following :: "addr \<Rightarrow> nat \<Rightarrow> addr list" where
  "following a n = map (\<lambda>i. Suc (a + i)) [0 ..< n]"

text \<open>
  The memory image of a NULL-terminated array of strings that is allocated at address
  \<open>a\<close> with its strings in the blocks that follow: the array with one slot for every
  string and the final NULL, then the strings.
\<close>

definition strv_block :: "addr \<Rightarrow> string list \<Rightarrow> cell option list" where
  "strv_block a strs =
     Some (Slots (map Some (following a (length strs)) @ [None]))
     # map (\<lambda>s. Some (Chars s)) strs"

text \<open>
  \<^verbatim>\<open>g_get_environ\<close>: a new NULL-terminated array with a new copy of every string of
  the environment; the array is allocated first, then the strings in order.
\<close>

definition g_get_environ :: "world \<Rightarrow> ptr \<times> world" where
  "g_get_environ w =
     (let a = length (memory w)
      in (Some a, w\<lparr>memory := memory w @ strv_block a (environ w)\<rparr>))"

subsection \<open>spawn\<close>

text \<open>
  The string that \<^verbatim>\<open>g_strdup (*element)\<close> reads. \<open>JString s\<close> holds the UTF-8 bytes that
  \<^verbatim>\<open>String::Utf8Value\<close> produces; read as a C string they end at the first NUL.
\<close>

definition c_str :: "string \<Rightarrow> string" where
  "c_str s = takeWhile (\<lambda>c. c \<noteq> CHR 0x00) s"

text \<open>\<^verbatim>\<open>pid_\<close> of a SpawnOperation is written by \<^verbatim>\<open>End\<close> only.\<close>

record SpawnOperation =
  spawn_path :: ptr
  spawn_argv :: ptr
  spawn_envp :: ptr

text \<open>
  The loop of \<^verbatim>\<open>Device::Spawn\<close> from index \<open>i\<close> on, over the elements that are left.
  It returns the final value of \<^verbatim>\<open>argv\<close>.
\<close>

fun copy_elements :: "ptr \<Rightarrow> nat \<Rightarrow> jsvalue list \<Rightarrow> world \<Rightarrow> (ptr \<times> world) option" where
  "copy_elements argv i [] w = Some (argv, w)"
| "copy_elements argv i (JString element # rest) w =
     (let (p, w1) = g_strdup (Some (c_str element)) w
      in case write_slot argv i p w1 of
           None \<Rightarrow> None
         | Some w2 \<Rightarrow> copy_elements argv (Suc i) rest w2)"
| "copy_elements argv i (element_value # rest) w = Some (None, g_strfreev argv w)"

text \<open>
  Lines 321 to 337: \<^verbatim>\<open>length\<close> and \<^verbatim>\<open>length + 1\<close> are \<^verbatim>\<open>uint32_t\<close>, so the
  sum wraps around at \<open>2 ^ 32\<close>.
\<close>

definition Spawn_argv :: "world \<Rightarrow> jsvalue list \<Rightarrow> (ptr \<times> world) option" where
  "Spawn_argv w info =
     (if 1 \<le> length info \<and> IsArray (info ! 0) then
        (case info ! 0 of
           JArray r \<Rightarrow>
             (let elements = arrays w r;
                  len = (word_of_nat (length elements) :: 32 word);
                  (argv, w1) = g_new0 (unat (len + 1)) w
              in copy_elements argv 0 (take (unat len) elements) w1)
         | _ \<Rightarrow> Some (None, w))
      else Some (None, w))"

definition Spawn :: "world \<Rightarrow> jsvalue list \<Rightarrow> SpawnOperation outcome \<times> world" where
  "Spawn w info =
     (case Spawn_argv w info of
        None \<Rightarrow> (Crash, w)
      | Some (argv, w2) \<Rightarrow>
          (if argv = None
           then (ThrowTypeError ''Bad argument, expected argv as an array of strings'', w2)
           else (let (envp, w3) = g_get_environ w2;
                     (path, w4) = g_strdup (read_string w3 (read_slot w3 argv 0)) w3
                 in (Scheduled \<lparr>spawn_path = path, spawn_argv = argv, spawn_envp = envp\<rparr>,
                     w4))))"

text \<open>
  What \<^verbatim>\<open>SpawnOperation::Begin\<close> hands to the native library: the device handle, and
  the strings and counts read through the three pointers at the time of the call.
\<close>

datatype native_call =
  frida_device_spawn gobject "string option" "string option list" nat "string option list" nat

definition SpawnOperation_Begin :: "gobject \<Rightarrow> SpawnOperation \<Rightarrow> world \<Rightarrow> native_call" where
  "SpawnOperation_Begin handle op w =
     frida_device_spawn handle
       (read_string w (spawn_path op))
       (map (read_string w) (strv_slots w (spawn_argv op)))
       (g_strv_length w (spawn_argv op))
       (map (read_string w) (strv_slots w (spawn_envp op)))
       (g_strv_length w (spawn_envp op))"

text \<open>\<^verbatim>\<open>SpawnOperation::~SpawnOperation\<close>.\<close>

definition SpawnOperation_dtor :: "SpawnOperation \<Rightarrow> world \<Rightarrow> world" where
  "SpawnOperation_dtor op w =
     g_free (spawn_path op) (g_strfreev (spawn_argv op) (g_strfreev (spawn_envp op) w))"

text \<open>
  A process that has allocated nothing yet, with two environment strings, in which
  every array reference denotes the array \<open>elements\<close>.
\<close>

definition fresh_world :: "jsvalue list \<Rightarrow> world" where
  "fresh_world elements =
     \<lparr>memory = [], freed = [], environ = [''HOME=/root'', ''PATH=/bin''],
      arrays = (\<lambda>r. elements), next_id = 0, refcount = (\<lambda>h. 1),
      native_list = (\<lambda>h. []), trace = []\<rparr>"

subsection \<open>Reference counts\<close>

text \<open>
  \<^verbatim>\<open>g_object_ref\<close> and \<^verbatim>\<open>g_object_unref\<close>. Releasing an object whose count is
  already 0 is an error of the caller; the count then stays 0 here and the trace shows
  the release.
\<close>

definition g_object_ref :: "gobject \<Rightarrow> world \<Rightarrow> world" where
  "g_object_ref h w =
     w\<lparr>refcount := (refcount w)(h := Suc (refcount w h)), trace := trace w @ [Ref h]\<rparr>"

definition g_object_unref :: "gobject \<Rightarrow> world \<Rightarrow> world" where
  "g_object_unref h w =
     w\<lparr>refcount := (refcount w)(h := refcount w h - 1), trace := trace w @ [Unref h]\<rparr>"

text \<open>
  \<^verbatim>\<open>frida_unref\<close> of the native library releases one reference of the object (the
  library does so on its own thread).
\<close>

definition frida_unref :: "gobject \<Rightarrow> world \<Rightarrow> world" where
  "frida_unref h w = g_object_unref h w"

subsection \<open>The Device wrapper\<close>

text \<open>
  The base class \<^verbatim>\<open>GLibObject\<close> stores the handle. \<^verbatim>\<open>events_\<close> is never assigned in
  device.cc, so \<^verbatim>\<open>events_.Reset()\<close> in the destructor has nothing to release.
\<close>

record Device =
  device_handle :: gobject

definition Device_ctor :: "gobject \<Rightarrow> world \<Rightarrow> Device \<times> world" where
  "Device_ctor h w = (\<lparr>device_handle = h\<rparr>, g_object_ref h w)"

definition Device_dtor :: "Device \<Rightarrow> world \<Rightarrow> world" where
  "Device_dtor d w = frida_unref (device_handle d) w"

text \<open>
  The life of one wrapper: it is constructed on a handle, its methods are called, it is
  destroyed. Of the methods of this theory only \<^verbatim>\<open>spawn\<close> changes the world, so the
  calls are given by their arguments \<open>info\<close>; \<open>Device_used\<close> is the world just before
  the destructor runs.
\<close>

definition Device_used :: "gobject \<Rightarrow> jsvalue list list \<Rightarrow> world \<Rightarrow> Device \<times> world" where
  "Device_used h calls w =
     (let (d, w1) = Device_ctor h w
      in (d, fold (\<lambda>info w. snd (Spawn w info)) calls w1))"

definition Device_lifetime :: "gobject \<Rightarrow> jsvalue list list \<Rightarrow> world \<Rightarrow> world" where
  "Device_lifetime h calls w = (let (d, w2) = Device_used h calls w in Device_dtor d w2)"

subsection \<open>Completion of an operation\<close>

text \<open>
  What a native finish call leaves behind: the value it returns and the \<^verbatim>\<open>GError\<close>
  message it stores in the error slot, if any.
\<close>

type_synonym 'a finished = "'a \<times> string option"

datatype future = Fulfilled jsvalue | Rejected string

text \<open>
  Modelled from the spec: the finish step of the \<^verbatim>\<open>Operation\<close> base class, which calls
  \<^verbatim>\<open>End\<close> and \<^verbatim>\<open>Result\<close> (operation.h is not among the sources). Sections 4.2 and 4.3:
  \<^verbatim>\<open>End\<close> runs first; if it yields a native error the future is rejected with the
  message of the error and \<^verbatim>\<open>Result\<close> is skipped; otherwise the future is fulfilled
  with the value that \<^verbatim>\<open>Result\<close> builds. \<open>End\<close> returns the members it assigns and the
  content of the error slot.
\<close>

definition Operation_finish ::
  "('r finished \<Rightarrow> 'm \<times> string option) \<Rightarrow> ('m \<Rightarrow> world \<Rightarrow> jsvalue \<times> world)
    \<Rightarrow> 'r finished \<Rightarrow> world \<Rightarrow> future \<times> world" where
  "Operation_finish End Result_of result w =
     (case End result of
        (m, Some message) \<Rightarrow> (Rejected message, w)
      | (m, None) \<Rightarrow> (let (v, w') = Result_of m w in (Fulfilled v, w')))"

text \<open>
  Modelled from the spec: \<^verbatim>\<open>Application::New\<close>, \<^verbatim>\<open>Process::New\<close> and
  \<^verbatim>\<open>Session::New\<close> (application.cc, process.cc and session.cc are not among the
  sources). Sections 3, 4.1 and 6: the constructor returns a new host object that holds
  the handle; the wrapper acquires its own reference at construction and the
  constructor does not consume the reference of its caller.
\<close>

definition Wrapper_New :: "kind \<Rightarrow> gobject \<Rightarrow> world \<Rightarrow> jsvalue \<times> world" where
  "Wrapper_New k h w =
     (JWrapper k h (next_id w),
      g_object_ref h (w\<lparr>next_id := Suc (next_id w), trace := trace w @ [Wrapped k h]\<rparr>))"

subsubsection \<open>getFrontmostApplication\<close>

text \<open>\<^verbatim>\<open>End\<close> assigns \<^verbatim>\<open>application_\<close>, a pointer that may be NULL.\<close>

definition GetFrontmostApplicationOperation_End ::
  "gobject option finished \<Rightarrow> gobject option \<times> string option" where
  "GetFrontmostApplicationOperation_End result = (fst result, snd result)"

definition GetFrontmostApplicationOperation_Result ::
  "gobject option \<Rightarrow> world \<Rightarrow> jsvalue \<times> world" where
  "GetFrontmostApplicationOperation_Result application w =
     (case application of
        Some a \<Rightarrow>
          (let (wrapper, w1) = Wrapper_New ApplicationKind a w
           in (wrapper, g_object_unref a w1))
      | None \<Rightarrow> (JNull, w))"

subsubsection \<open>enumerateApplications and enumerateProcesses\<close>

text \<open>
  \<^verbatim>\<open>frida_application_list_get\<close> and \<^verbatim>\<open>frida_process_list_get\<close> return the element
  with a new reference. The loops call them below the size of the list only.
\<close>

definition frida_list_get :: "gobject \<Rightarrow> nat \<Rightarrow> world \<Rightarrow> gobject \<times> world" where
  "frida_list_get lst i w = (native_list w lst ! i, g_object_ref (native_list w lst ! i) w)"

text \<open>\<^verbatim>\<open>Nan::New<v8::Array>(size)\<close>: a new host array of \<open>sz\<close> holes.\<close>

definition Nan_New_Array :: "nat \<Rightarrow> world \<Rightarrow> nat \<times> world" where
  "Nan_New_Array sz w =
     (next_id w,
      w\<lparr>next_id := Suc (next_id w),
        arrays := (arrays w)(next_id w := replicate sz JUndefined)\<rparr>)"

text \<open>\<^verbatim>\<open>Nan::Set (array, i, value)\<close>: a store past the end extends the array.\<close>

definition Nan_Set :: "nat \<Rightarrow> nat \<Rightarrow> jsvalue \<Rightarrow> world \<Rightarrow> world" where
  "Nan_Set arr i v w =
     w\<lparr>arrays := (arrays w)(arr :=
          (if i < length (arrays w arr) then (arrays w arr)[i := v]
           else arrays w arr @ replicate (i - length (arrays w arr)) JUndefined @ [v]))\<rparr>"

text \<open>
  The loop of both \<^verbatim>\<open>Result\<close> methods from index \<open>i\<close> on, with \<open>n\<close> iterations left
  (\<open>n\<close> is \<^verbatim>\<open>size - i\<close>).
\<close>

fun wrap_elements :: "kind \<Rightarrow> gobject \<Rightarrow> nat \<Rightarrow> nat \<Rightarrow> nat \<Rightarrow> world \<Rightarrow> world" where
  "wrap_elements k lst arr i 0 w = w"
| "wrap_elements k lst arr i (Suc n) w =
     (let (h, w1) = frida_list_get lst i w;
          (wrapper, w2) = Wrapper_New k h w1;
          w3 = Nan_Set arr i wrapper w2;
          w4 = g_object_unref h w3
      in wrap_elements k lst arr (Suc i) n w4)"

text \<open>\<^verbatim>\<open>End\<close> assigns \<^verbatim>\<open>applications_\<close> (\<^verbatim>\<open>processes_\<close>), the native list.\<close>

definition EnumerateApplicationsOperation_End ::
  "gobject finished \<Rightarrow> gobject \<times> string option" where
  "EnumerateApplicationsOperation_End result = (fst result, snd result)"

definition EnumerateApplicationsOperation_Result :: "gobject \<Rightarrow> world \<Rightarrow> jsvalue \<times> world" where
  "EnumerateApplicationsOperation_Result applications w =
     (let sz = length (native_list w applications);
          (arr, w1) = Nan_New_Array sz w;
          w2 = wrap_elements ApplicationKind applications arr 0 sz w1
      in (JArray arr, g_object_unref applications w2))"

definition EnumerateProcessesOperation_End ::
  "gobject finished \<Rightarrow> gobject \<times> string option" where
  "EnumerateProcessesOperation_End result = (fst result, snd result)"

definition EnumerateProcessesOperation_Result :: "gobject \<Rightarrow> world \<Rightarrow> jsvalue \<times> world" where
  "EnumerateProcessesOperation_Result processes w =
     (let sz = length (native_list w processes);
          (arr, w1) = Nan_New_Array sz w;
          w2 = wrap_elements ProcessKind processes arr 0 sz w1
      in (JArray arr, g_object_unref processes w2))"

text \<open>
  What one iteration on the element \<open>h\<close> adds to the trace: the reference that the list
  hands out, the wrapper and its own reference, the release of the reference of the list.
\<close>

definition element_events :: "kind \<Rightarrow> gobject \<Rightarrow> event list" where
  "element_events k h = [Ref h, Wrapped k h, Ref h, Unref h]"

subsubsection \<open>spawn, resume and kill\<close>

text \<open>\<^verbatim>\<open>End\<close> assigns \<^verbatim>\<open>pid_\<close>.\<close>

definition SpawnOperation_End :: "guint finished \<Rightarrow> guint \<times> string option" where
  "SpawnOperation_End result = (fst result, snd result)"

text \<open>\<^verbatim>\<open>Nan::New<v8::Uint32>(pid_)\<close>: the host number of that unsigned value.\<close>

definition SpawnOperation_Result :: "guint \<Rightarrow> world \<Rightarrow> jsvalue \<times> world" where
  "SpawnOperation_Result pid w = (JNumber (Fin (real (unat pid))), w)"

text \<open>The native finish calls of resume and kill return nothing.\<close>

definition ResumeOperation_End :: "unit finished \<Rightarrow> unit \<times> string option" where
  "ResumeOperation_End result = ((), snd result)"

definition ResumeOperation_Result :: "unit \<Rightarrow> world \<Rightarrow> jsvalue \<times> world" where
  "ResumeOperation_Result u w = (JUndefined, w)"

definition KillOperation_End :: "unit finished \<Rightarrow> unit \<times> string option" where
  "KillOperation_End result = ((), snd result)"

definition KillOperation_Result :: "unit \<Rightarrow> world \<Rightarrow> jsvalue \<times> world" where
  "KillOperation_Result u w = (JUndefined, w)"

text \<open>A world with one native list of three elements, the second of them twice.\<close>

definition listing_world :: world where
  "listing_world =
     \<lparr>memory = [], freed = [], environ = [], arrays = (\<lambda>r. []), next_id = 10,
      refcount = (\<lambda>h. 1), native_list = (\<lambda>h. if h = 100 then [21, 22, 22] else []),
      trace = []\<rparr>"

section \<open>Theorems\<close>

lemma trunc_nonpos: "x \<le> 0 \<Longrightarrow> trunc x \<le> 0"
  by (simp add: trunc_def ceiling_le_zero)

lemma ToInteger_Value_nonpos: "value_le_zero n \<Longrightarrow> ToInteger_Value ovf n \<le> 0"
proof (cases n)
  case (Fin x)
  assume "value_le_zero n"
  with Fin have "trunc x \<le> 0" by (simp add: trunc_nonpos)
  with Fin show ?thesis by (simp add: INT64_MIN_def INT64_MAX_def)
qed (simp_all add: INT64_MIN_def)

subsection \<open>Validation of the pid argument\<close>

text \<open>
  C2. A call of resume, kill or attach whose argument is missing, is not a number, or is
  a number of value at most 0 throws the TypeError "Bad argument, expected pid" at the
  call site: the outcome carries no operation, hence no promise that could be rejected.
\<close>

theorem pid_validation_throws:
  assumes "info = [] \<or> \<not> IsNumber (info ! 0) \<or> (\<exists>n. info ! 0 = JNumber n \<and> value_le_zero n)"
  shows "Resume ovf info = ThrowTypeError ''Bad argument, expected pid''
       \<and> Kill ovf info = ThrowTypeError ''Bad argument, expected pid''
       \<and> Attach ovf info = ThrowTypeError ''Bad argument, expected pid''"
proof -
  from assms consider (missing) "info = []" | (other) "\<not> IsNumber (info ! 0)"
    | (low) n where "info \<noteq> []" "info ! 0 = JNumber n" "value_le_zero n"
    by blast
  then show ?thesis
  proof cases
    case missing
    then show ?thesis by (simp add: Resume_def Kill_def Attach_def)
  next
    case other
    then show ?thesis by (simp add: Resume_def Kill_def Attach_def)
  next
    case low
    from low(3) have "ToInteger_Value ovf n \<le> 0" by (rule ToInteger_Value_nonpos)
    with low(1,2) show ?thesis by (simp add: Resume_def Kill_def Attach_def)
  qed
qed

theorem pid_validation_throws_witness:
  "Resume 0 [] = ThrowTypeError ''Bad argument, expected pid''
   \<and> Kill 0 [JString ''x''] = ThrowTypeError ''Bad argument, expected pid''
   \<and> Attach 0 [JNumber (Fin (- 5))] = ThrowTypeError ''Bad argument, expected pid''
   \<and> Resume 0 [JNumber (Fin 0)] = ThrowTypeError ''Bad argument, expected pid''"
proof -
  have a: "Resume 0 [] = ThrowTypeError ''Bad argument, expected pid''"
    using pid_validation_throws [of "[]" 0] by simp
  have b: "Kill 0 [JString ''x''] = ThrowTypeError ''Bad argument, expected pid''"
    using pid_validation_throws [of "[JString ''x'']" 0] by simp
  have c: "Attach 0 [JNumber (Fin (- 5))] = ThrowTypeError ''Bad argument, expected pid''"
    using pid_validation_throws [of "[JNumber (Fin (- 5))]" 0] by simp
  have d: "Resume 0 [JNumber (Fin 0)] = ThrowTypeError ''Bad argument, expected pid''"
    using pid_validation_throws [of "[JNumber (Fin 0)]" 0] by simp
  from a b c d show ?thesis by simp
qed

subsection \<open>Coercion of the pid argument\<close>

text \<open>
  C9. The pid argument is converted to an integer before it is compared with 0: every
  number whose integer conversion is positive is accepted, and the operation receives
  that integer cast to an unsigned 32-bit integer. The number 1.5 converts to 1, is
  accepted by resume, kill and attach, and the operation receives the pid 1.
\<close>

theorem pid_coerced_before_check:
  "(info \<noteq> [] \<and> info ! 0 = JNumber n \<and> 0 < ToInteger_Value ovf n \<longrightarrow>
      Resume ovf info = Scheduled \<lparr>resume_pid = static_cast_guint (ToInteger_Value ovf n)\<rparr>
    \<and> Kill ovf info = Scheduled \<lparr>kill_pid = static_cast_guint (ToInteger_Value ovf n)\<rparr>
    \<and> Attach ovf info = Scheduled \<lparr>attach_pid = static_cast_guint (ToInteger_Value ovf n)\<rparr>)
   \<and> ToInteger_Value ovf (Fin (3 / 2)) = 1
   \<and> Resume ovf (JNumber (Fin (3 / 2)) # rest) = Scheduled \<lparr>resume_pid = 1\<rparr>
   \<and> Kill ovf (JNumber (Fin (3 / 2)) # rest) = Scheduled \<lparr>kill_pid = 1\<rparr>
   \<and> Attach ovf (JNumber (Fin (3 / 2)) # rest) = Scheduled \<lparr>attach_pid = 1\<rparr>"
proof -
  have t: "ToInteger_Value ovf (Fin (3 / 2)) = 1"
    by (simp add: trunc_def INT64_MIN_def INT64_MAX_def)
  have c: "static_cast_guint 1 = 1" by (simp add: static_cast_guint_def)
  have "Resume ovf (JNumber (Fin (3 / 2)) # rest) = Scheduled \<lparr>resume_pid = 1\<rparr>
      \<and> Kill ovf (JNumber (Fin (3 / 2)) # rest) = Scheduled \<lparr>kill_pid = 1\<rparr>
      \<and> Attach ovf (JNumber (Fin (3 / 2)) # rest) = Scheduled \<lparr>attach_pid = 1\<rparr>"
    using t c by (simp add: Resume_def Kill_def Attach_def del: ToInteger_Value.simps)
  with t show ?thesis
    by (simp add: Resume_def Kill_def Attach_def del: ToInteger_Value.simps)
qed

theorem pid_coerced_before_check_witness:
  "Resume 0 [JNumber (Fin 7)] = Scheduled \<lparr>resume_pid = 7\<rparr>
   \<and> Kill 0 [JNumber (Fin (5 / 2))] = Scheduled \<lparr>kill_pid = 2\<rparr>
   \<and> Attach 0 [JNumber (Fin 4294967297)] = Scheduled \<lparr>attach_pid = 1\<rparr>"
proof -
  have a: "Resume 0 [JNumber (Fin 7)] = Scheduled \<lparr>resume_pid = 7\<rparr>"
    using pid_coerced_before_check [of "[JNumber (Fin 7)]" "Fin 7" 0]
    by (simp add: trunc_def INT64_MIN_def INT64_MAX_def static_cast_guint_def)
  have b: "Kill 0 [JNumber (Fin (5 / 2))] = Scheduled \<lparr>kill_pid = 2\<rparr>"
    using pid_coerced_before_check [of "[JNumber (Fin (5 / 2))]" "Fin (5 / 2)" 0]
    by (simp add: trunc_def INT64_MIN_def INT64_MAX_def static_cast_guint_def)
  have c: "Attach 0 [JNumber (Fin 4294967297)] = Scheduled \<lparr>attach_pid = 1\<rparr>"
    using pid_coerced_before_check [of "[JNumber (Fin 4294967297)]" "Fin 4294967297" 0]
    by (simp add: trunc_def INT64_MIN_def INT64_MAX_def static_cast_guint_def)
  from a b c show ?thesis by simp
qed

subsection \<open>The type accessor\<close>

text \<open>
  C6. Reading the type field returns one of the three strings "local", "tether" and
  "remote", chosen by the native enum value; on every other enum value the getter
  aborts the process, so it returns no value, and it has no throwing path at all.
\<close>

theorem GetType_closed:
  "GetType FRIDA_DEVICE_TYPE_LOCAL = Value (JString ''local'')
   \<and> GetType FRIDA_DEVICE_TYPE_TETHER = Value (JString ''tether'')
   \<and> GetType FRIDA_DEVICE_TYPE_REMOTE = Value (JString ''remote'')
   \<and> (GetType dtype = Abort) =
       (dtype \<notin> {FRIDA_DEVICE_TYPE_LOCAL, FRIDA_DEVICE_TYPE_TETHER, FRIDA_DEVICE_TYPE_REMOTE})
   \<and> GetType dtype \<in>
       {Value (JString ''local''), Value (JString ''tether''), Value (JString ''remote''), Abort}"
  by (simp add: GetType_def FRIDA_DEVICE_TYPE_LOCAL_def FRIDA_DEVICE_TYPE_TETHER_def
      FRIDA_DEVICE_TYPE_REMOTE_def)

subsection \<open>The spawn loop and the memory it allocates\<close>

lemma copy_elements_strings:
  assumes "a < length (memory w)"
      and "memory w ! a = Some (Slots (map Some ps @ replicate (Suc k) None))"
      and "length ss \<le> k"
  shows "copy_elements (Some a) (length ps) (map JString ss) w =
         Some (Some a,
           w\<lparr>memory := (memory w)[a := Some (Slots
                 (map Some (ps @ [length (memory w) ..< length (memory w) + length ss])
                  @ replicate (Suc k - length ss) None))]
               @ map (\<lambda>s. Some (Chars (c_str s))) ss\<rparr>)"
  using assms
proof (induction ss arbitrary: ps k w)
  case Nil
  have "(memory w)[a := Some (Slots (map Some ps @ replicate (Suc k) None))] = memory w"
    using Nil.prems(2) by (metis list_update_id)
  then show ?case by simp
next
  case (Cons s ss)
  define L where "L = length (memory w)"
  define w1 where "w1 = w\<lparr>memory := memory w @ [Some (Chars (c_str s))]\<rparr>"
  define w2 where "w2 = w1\<lparr>memory := (memory w1)[a := Some (Slots (map Some (ps @ [L]) @ replicate k None))]\<rparr>"
  from Cons.prems obtain k' where k: "k = Suc k'" by (cases k) auto
  have dup: "g_strdup (Some (c_str s)) w = (Some L, w1)"
    by (simp add: g_strdup_def allocate_def L_def w1_def)
  have cell: "cell_at w1 a = Some (Slots (map Some ps @ replicate (Suc k) None))"
    using Cons.prems by (simp add: cell_at_def w1_def nth_append)
  have upd: "(map Some ps @ replicate (Suc k) None)[length ps := Some L]
             = map Some (ps @ [L]) @ replicate k None"
    by (simp add: list_update_append)
  have wr: "write_slot (Some a) (length ps) (Some L) w1 = Some w2"
    using cell upd by (simp add: write_slot_def w2_def)
  have a2: "a < length (memory w2)"
    using Cons.prems by (simp add: w2_def w1_def)
  have m2: "memory w2 ! a = Some (Slots (map Some (ps @ [L]) @ replicate (Suc k') None))"
    using Cons.prems by (simp add: w2_def w1_def k)
  have len: "length ss \<le> k'" using Cons.prems k by simp
  have ih: "copy_elements (Some a) (length (ps @ [L])) (map JString ss) w2 =
         Some (Some a,
           w2\<lparr>memory := (memory w2)[a := Some (Slots
                 (map Some ((ps @ [L]) @ [length (memory w2) ..< length (memory w2) + length ss])
                  @ replicate (Suc k' - length ss) None))]
               @ map (\<lambda>s. Some (Chars (c_str s))) ss\<rparr>)"
    by (rule Cons.IH [OF a2 m2 len])
  have l2: "length (memory w2) = Suc L" by (simp add: w2_def w1_def L_def)
  have "[L ..< Suc (L + length ss)] = L # [Suc L ..< Suc (L + length ss)]"
    by (rule upt_conv_Cons) simp
  then have upt: "[L ..< L + length (s # ss)] = L # [Suc L ..< Suc L + length ss]"
    by simp
  have mem: "(memory w2)[a := x] @ ys = (memory w)[a := x] @ Some (Chars (c_str s)) # ys" for x ys
    using Cons.prems(1) by (simp add: w2_def w1_def list_update_append)
  have "copy_elements (Some a) (length ps) (map JString (s # ss)) w
        = copy_elements (Some a) (Suc (length ps)) (map JString ss) w2"
    using dup wr by simp
  also have "\<dots> = Some (Some a,
           w2\<lparr>memory := (memory w2)[a := Some (Slots
                 (map Some ((ps @ [L]) @ [length (memory w2) ..< length (memory w2) + length ss])
                  @ replicate (Suc k' - length ss) None))]
               @ map (\<lambda>s. Some (Chars (c_str s))) ss\<rparr>)"
    using ih by simp
  also have "\<dots> = Some (Some a,
           w\<lparr>memory := (memory w)[a := Some (Slots
                 (map Some (ps @ [length (memory w) ..< length (memory w) + length (s # ss)])
                  @ replicate (Suc k - length (s # ss)) None))]
               @ map (\<lambda>s. Some (Chars (c_str s))) (s # ss)\<rparr>)"
    unfolding mem l2 upt [unfolded L_def [symmetric]] L_def [symmetric]
    by (simp add: w2_def w1_def k L_def)
  finally show ?case .
qed

lemma copy_elements_append:
  "copy_elements argv i (map JString ss @ rest) w =
     (case copy_elements argv i (map JString ss) w of
        None \<Rightarrow> None
      | Some (argv', w') \<Rightarrow> copy_elements argv (i + length ss) rest w')"
  by (induction ss arbitrary: i w) (auto split: option.splits prod.splits)


lemma split_at_non_string:
  "\<exists>v\<in>set es. \<not> IsString v \<Longrightarrow>
   \<exists>ss v rest. es = map JString ss @ v # rest \<and> \<not> IsString v"
proof (induction es)
  case Nil
  then show ?case by simp
next
  case (Cons e es)
  show ?case
  proof (cases "IsString e")
    case False
    then have "e # es = map JString [] @ e # es \<and> \<not> IsString e" by simp
    then show ?thesis by (intro exI)
  next
    case True
    then obtain s where e: "e = JString s" by (cases e) auto
    with Cons.prems have "\<exists>v\<in>set es. \<not> IsString v" by auto
    from Cons.IH [OF this] obtain ss v rest
      where "es = map JString ss @ v # rest" "\<not> IsString v" by blast
    with e have "e # es = map JString (s # ss) @ v # rest \<and> \<not> IsString v" by simp
    then show ?thesis by (intro exI)
  qed
qed

lemma all_strings:
  "\<forall>v\<in>set es. IsString v \<Longrightarrow> \<exists>ss. es = map JString ss"
proof (induction es)
  case Nil
  then show ?case by simp
next
  case (Cons e es)
  then obtain ss where "es = map JString ss" by auto
  moreover from Cons.prems obtain s where "e = JString s" by (cases e) auto
  ultimately have "e # es = map JString (s # ss)" by simp
  then show ?case by (rule exI)
qed

lemma fold_g_free:
  "fold g_free (map Some as) w =
     w\<lparr>memory := fold (\<lambda>a m. m[a := None]) as (memory w), freed := freed w @ as\<rparr>"
  by (induction as arbitrary: w) (simp_all add: g_free_def)

lemma length_fold_clear: "length (fold (\<lambda>a m. m[a := None]) as m) = length m"
  by (induction as arbitrary: m) simp_all

lemma nth_fold_clear:
  "i < length m \<Longrightarrow>
   fold (\<lambda>a m. m[a := None]) as m ! i = (if i \<in> set as then None else m ! i)"
  by (induction as arbitrary: m) (auto simp: nth_list_update length_fold_clear)


lemma unat_length32: "n < 2 ^ 32 \<Longrightarrow> unat (word_of_nat n :: 32 word) = n"
  by (rule of_nat_inverse) simp_all

lemma unat_length32_Suc:
  assumes "n < 2 ^ 32 - 1"
  shows "unat ((word_of_nat n :: 32 word) + 1) = Suc n"
proof -
  have "(word_of_nat n :: 32 word) + 1 = word_of_nat (Suc n)" by simp
  moreover from assms have "Suc n < 2 ^ 32" by simp
  ultimately show ?thesis by (simp only: unat_length32)
qed

lemma copy_elements_non_string:
  "\<not> IsString v \<Longrightarrow> copy_elements argv i (v # rest) w = Some (None, g_strfreev argv w)"
  by (cases v) simp_all

lemma g_strfreev_closed:
  assumes "cell_at w a = Some (Slots (map Some as @ None # rest))"
  shows "g_strfreev (Some a) w =
           w\<lparr>memory := (fold (\<lambda>a m. m[a := None]) as (memory w))[a := None],
             freed := freed w @ as @ [a]\<rparr>"
proof -
  have "takeWhile (\<lambda>p. p \<noteq> None) (map Some as @ None # rest) = map Some as"
    by (induction as) simp_all
  with assms have "strv_slots w (Some a) = map Some as"
    by (simp add: strv_slots_def)
  then show ?thesis
    by (simp add: g_strfreev_def fold_g_free g_free_def)
qed

lemma Spawn_argv_all_strings:
  assumes "info \<noteq> []" and "info ! 0 = JArray r" and "arrays w r = map JString ss"
      and "length ss < 2 ^ 32 - 1"
  shows "Spawn_argv w info =
           Some (Some (length (memory w)),
             w\<lparr>memory := memory w
                 @ [Some (Slots (map Some [Suc (length (memory w)) ..<
                                           Suc (length (memory w)) + length ss] @ [None]))]
                 @ map (\<lambda>s. Some (Chars (c_str s))) ss\<rparr>)"
proof -
  define L where "L = length (memory w)"
  define n where "n = length ss"
  define w0 where "w0 = w\<lparr>memory := memory w @ [Some (Slots (replicate (Suc n) None))]\<rparr>"
  from assms(4) have n1: "unat ((word_of_nat n :: 32 word) + 1) = Suc n"
    unfolding n_def by (rule unat_length32_Suc)
  from assms(4) have n0: "unat (word_of_nat n :: 32 word) = n"
    unfolding n_def by (intro unat_length32) simp
  have new: "g_new0 (Suc n) w = (Some L, w0)"
    by (simp add: g_new0_def allocate_def L_def w0_def)
  have a: "L < length (memory w0)" by (simp add: w0_def L_def)
  have m: "memory w0 ! L = Some (Slots (map Some [] @ replicate (Suc n) None))"
    by (simp add: w0_def L_def)
  have "copy_elements (Some L) (length ([] :: addr list)) (map JString ss) w0 =
         Some (Some L,
           w0\<lparr>memory := (memory w0)[L := Some (Slots
                 (map Some ([] @ [length (memory w0) ..< length (memory w0) + length ss])
                  @ replicate (Suc n - length ss) None))]
               @ map (\<lambda>s. Some (Chars (c_str s))) ss\<rparr>)"
    by (rule copy_elements_strings [OF a m]) (simp add: n_def)
  then have loop: "copy_elements (Some L) 0 (map JString ss) w0 =
         Some (Some L,
           w\<lparr>memory := memory w
                 @ [Some (Slots (map Some [Suc L ..< Suc L + length ss] @ [None]))]
                 @ map (\<lambda>s. Some (Chars (c_str s))) ss\<rparr>)"
    by (simp add: w0_def L_def n_def)
  from assms(1,2,3) have "Spawn_argv w info =
      (let (argv, w1) = g_new0 (unat ((word_of_nat n :: 32 word) + 1)) w
       in copy_elements argv 0 (take (unat (word_of_nat n :: 32 word)) (map JString ss)) w1)"
    by (cases info) (simp_all add: Spawn_argv_def n_def Let_def)
  also have "\<dots> = copy_elements (Some L) 0 (map JString ss) w0"
    unfolding n1 n0 new by (simp add: n_def)
  finally show ?thesis using loop by (simp add: L_def)
qed

lemma clear_block:
  "(fold (\<lambda>a m. m[a := None]) [Suc (length M) ..< Suc (length M) + length cs]
      (M @ [v] @ cs))[length M := None]
   = M @ replicate (Suc (length cs)) None"
  by (rule nth_equalityI) (auto simp: length_fold_clear nth_fold_clear nth_list_update nth_append)

lemma Spawn_argv_non_string:
  assumes "info \<noteq> []" and "info ! 0 = JArray r"
      and "arrays w r = map JString ss @ v # rest" and "\<not> IsString v"
      and "length (arrays w r) < 2 ^ 32 - 1"
  shows "Spawn_argv w info =
           Some (None,
             w\<lparr>memory := memory w @ replicate (Suc (length ss)) None,
               freed := freed w @ [Suc (length (memory w)) ..<
                                   Suc (length (memory w)) + length ss] @ [length (memory w)]\<rparr>)"
proof -
  define L where "L = length (memory w)"
  define n where "n = length (arrays w r)"
  define w0 where "w0 = w\<lparr>memory := memory w @ [Some (Slots (replicate (Suc n) None))]\<rparr>"
  define w1 where "w1 = w\<lparr>memory := memory w
                 @ [Some (Slots (map Some [Suc L ..< Suc L + length ss]
                                 @ replicate (Suc n - length ss) None))]
                 @ map (\<lambda>s. Some (Chars (c_str s))) ss\<rparr>"
  from assms(5) have n1: "unat ((word_of_nat n :: 32 word) + 1) = Suc n"
    unfolding n_def by (rule unat_length32_Suc)
  from assms(5) have n0: "unat (word_of_nat n :: 32 word) = n"
    unfolding n_def by (intro unat_length32) simp
  have ns: "length ss < n" using assms(3) by (simp add: n_def)
  have new: "g_new0 (Suc n) w = (Some L, w0)"
    by (simp add: g_new0_def allocate_def L_def w0_def)
  have a: "L < length (memory w0)" by (simp add: w0_def L_def)
  have m: "memory w0 ! L = Some (Slots (map Some [] @ replicate (Suc n) None))"
    by (simp add: w0_def L_def)
  have "copy_elements (Some L) (length ([] :: addr list)) (map JString ss) w0 =
         Some (Some L,
           w0\<lparr>memory := (memory w0)[L := Some (Slots
                 (map Some ([] @ [length (memory w0) ..< length (memory w0) + length ss])
                  @ replicate (Suc n - length ss) None))]
               @ map (\<lambda>s. Some (Chars (c_str s))) ss\<rparr>)"
    by (rule copy_elements_strings [OF a m]) (use ns in simp)
  then have loop: "copy_elements (Some L) 0 (map JString ss) w0 = Some (Some L, w1)"
    by (simp add: w0_def w1_def L_def)
  obtain d where d: "Suc n - length ss = Suc d" using ns by (cases "Suc n - length ss") auto
  have cell: "cell_at w1 L = Some (Slots (map Some [Suc L ..< Suc L + length ss]
                                   @ None # replicate d None))"
    by (simp add: cell_at_def w1_def L_def d nth_append)
  have free: "g_strfreev (Some L) w1 =
           w\<lparr>memory := memory w @ replicate (Suc (length ss)) None,
             freed := freed w @ [Suc L ..< Suc L + length ss] @ [L]\<rparr>"
    unfolding g_strfreev_closed [OF cell]
    using clear_block [where M = "memory w" and cs = "map (\<lambda>s. Some (Chars (c_str s))) ss"]
    by (simp add: w1_def L_def)
  from assms(1,2) have "Spawn_argv w info =
      (let (argv, w1) = g_new0 (unat ((word_of_nat n :: 32 word) + 1)) w
       in copy_elements argv 0 (take (unat (word_of_nat n :: 32 word)) (arrays w r)) w1)"
    by (cases info) (simp_all add: Spawn_argv_def n_def Let_def)
  also have "\<dots> = copy_elements (Some L) 0 (map JString ss @ v # rest) w0"
    unfolding n1 n0 new using assms(3) by (simp add: n_def)
  also have "\<dots> = Some (None, g_strfreev (Some L) w1)"
    using loop assms(4) by (simp add: copy_elements_append copy_elements_non_string)
  finally show ?thesis using free by (simp add: L_def)
qed




lemma length_following: "length (following a n) = n"
  by (simp add: following_def)

lemma nth_following: "i < n \<Longrightarrow> following a n ! i = Suc (a + i)"
  by (simp add: following_def)

lemma set_following: "x \<in> set (following a n) \<longleftrightarrow> a < x \<and> x \<le> a + n"
proof
  assume "x \<in> set (following a n)"
  then show "a < x \<and> x \<le> a + n" by (auto simp: following_def)
next
  assume "a < x \<and> x \<le> a + n"
  then have "x - Suc a < n" and "x = Suc (a + (x - Suc a))" by arith+
  then show "x \<in> set (following a n)" unfolding following_def by (metis atLeast0LessThan imageI lessThan_iff list.set_map set_upt)
qed

lemma distinct_following: "distinct (following a n)"
  by (simp add: following_def distinct_map inj_on_def)

lemma following_upt: "[Suc a ..< Suc a + n] = following a n"
  by (rule nth_equalityI) (simp_all add: length_following nth_following del: upt_Suc)

lemma length_strv_block: "length (strv_block a strs) = Suc (length strs)"
  by (simp add: strv_block_def)

lemma Spawn_argv_block:
  assumes "info \<noteq> []" and "info ! 0 = JArray r" and "arrays w r = map JString ss"
      and "length ss < 2 ^ 32 - 1"
  shows "Spawn_argv w info =
           Some (Some (length (memory w)),
             w\<lparr>memory := memory w @ strv_block (length (memory w)) (map c_str ss)\<rparr>)"
  unfolding Spawn_argv_all_strings [OF assms] following_upt
  by (simp add: strv_block_def comp_def)

lemma Spawn_argv_released:
  assumes "info \<noteq> []" and "info ! 0 = JArray r"
      and "arrays w r = map JString ss @ v # rest" and "\<not> IsString v"
      and "length (arrays w r) < 2 ^ 32 - 1"
  shows "Spawn_argv w info =
           Some (None,
             w\<lparr>memory := memory w @ replicate (Suc (length ss)) None,
               freed := freed w @ following (length (memory w)) (length ss)
                        @ [length (memory w)]\<rparr>)"
  unfolding Spawn_argv_non_string [OF assms] following_upt ..

lemma takeWhile_slots:
  "takeWhile (\<lambda>p. p \<noteq> None) (map Some as @ [None]) = map Some as"
  by (induction as) simp_all

lemma strv_slots_block:
  assumes "memory w = A @ strv_block (length A) strs @ B"
  shows "strv_slots w (Some (length A)) = map Some (following (length A) (length strs))"
proof -
  have "cell_at w (length A) =
          Some (Slots (map Some (following (length A) (length strs)) @ [None]))"
    using assms by (simp add: cell_at_def strv_block_def)
  then show ?thesis
    unfolding strv_slots_def by (simp only: option.case cell.case takeWhile_slots)
qed

lemma read_string_block:
  assumes "memory w = A @ strv_block (length A) strs @ B" and "i < length strs"
  shows "read_string w (Some (Suc (length A + i))) = Some (strs ! i)"
  using assms
  by (simp add: read_string_def cell_at_def strv_block_def nth_append)

lemma read_strings_block:
  assumes "memory w = A @ strv_block (length A) strs @ B"
  shows "map (read_string w) (strv_slots w (Some (length A))) = map Some strs"
proof (rule nth_equalityI)
  show "length (map (read_string w) (strv_slots w (Some (length A)))) = length (map Some strs)"
    by (simp add: strv_slots_block [OF assms] length_following)
next
  fix i assume "i < length (map (read_string w) (strv_slots w (Some (length A))))"
  then have i: "i < length strs" by (simp add: strv_slots_block [OF assms] length_following)
  then show "map (read_string w) (strv_slots w (Some (length A))) ! i = map Some strs ! i"
    using read_string_block [OF assms i]
    by (simp add: strv_slots_block [OF assms] length_following nth_following)
qed

lemma clear_block_in_context:
  "(fold (\<lambda>a m. m[a := None]) (following (length A) (length strs))
      (A @ strv_block (length A) strs @ B))[length A := None]
   = A @ replicate (Suc (length strs)) None @ B" (is "?l = ?r")
proof (rule nth_equalityI)
  show "length ?l = length ?r" by (simp add: length_fold_clear length_strv_block)
next
  fix i assume "i < length ?l"
  then have i: "i < length (A @ strv_block (length A) strs @ B)"
    by (simp add: length_fold_clear)
  consider "i < length A" | "i = length A" | "length A < i" "i \<le> length A + length strs"
    | "length A + length strs < i" by linarith
  then show "?l ! i = ?r ! i"
  proof cases
    case 1
    with i show ?thesis
      by (simp add: nth_list_update nth_fold_clear set_following nth_append)
  next
    case 2
    with i show ?thesis
      by (simp add: length_fold_clear nth_append)
  next
    case 3
    with i show ?thesis
      by (auto simp add: nth_list_update nth_fold_clear set_following nth_append
          length_strv_block)
  next
    case 4
    then have "\<not> i < length A" and "\<not> i - length A < Suc (length strs)"
      and "i \<noteq> length A" and "i \<notin> set (following (length A) (length strs))"
      and "\<not> i - Suc (length A) < length strs"
      by (auto simp: set_following)
    with i show ?thesis
      by (simp add: nth_list_update nth_fold_clear nth_append length_strv_block)
  qed
qed

lemma g_strfreev_block:
  assumes "memory w = A @ strv_block (length A) strs @ B"
  shows "g_strfreev (Some (length A)) w =
           w\<lparr>memory := A @ replicate (Suc (length strs)) None @ B,
             freed := freed w @ following (length A) (length strs) @ [length A]\<rparr>"
proof -
  have "cell_at w (length A) =
          Some (Slots (map Some (following (length A) (length strs)) @ None # []))"
    using assms by (simp add: cell_at_def strv_block_def)
  from g_strfreev_closed [OF this] show ?thesis
    by (simp only: assms clear_block_in_context)
qed


lemma Spawn_rejects:
  assumes "Spawn_argv w info = Some (None, w')"
  shows "Spawn w info =
           (ThrowTypeError ''Bad argument, expected argv as an array of strings'', w')"
  using assms by (simp add: Spawn_def)

lemma Spawn_argv_not_array:
  "info = [] \<or> \<not> IsArray (info ! 0) \<Longrightarrow> Spawn_argv w info = Some (None, w)"
  by (cases info) (auto simp: Spawn_argv_def)

lemma Spawn_accepts:
  assumes "info \<noteq> []" and "info ! 0 = JArray r" and "arrays w r = map JString ss"
      and "length ss < 2 ^ 32 - 1"
  shows "Spawn w info =
     (Scheduled
        \<lparr>spawn_path = (case ss of [] \<Rightarrow> None
                       | s # _ \<Rightarrow> Some (length (memory w) + length ss + length (environ w) + 2)),
         spawn_argv = Some (length (memory w)),
         spawn_envp = Some (Suc (length (memory w) + length ss))\<rparr>,
      w\<lparr>memory := memory w @ strv_block (length (memory w)) (map c_str ss)
           @ strv_block (Suc (length (memory w) + length ss)) (environ w)
           @ (case ss of [] \<Rightarrow> [] | s # _ \<Rightarrow> [Some (Chars (c_str s))])\<rparr>)"
proof -
  define L where "L = length (memory w)"
  define w2 where "w2 = w\<lparr>memory := memory w @ strv_block L (map c_str ss)\<rparr>"
  define w3 where "w3 = w2\<lparr>memory := memory w2 @ strv_block (Suc (L + length ss)) (environ w)\<rparr>"
  have argv: "Spawn_argv w info = Some (Some L, w2)"
    unfolding w2_def L_def by (rule Spawn_argv_block [OF assms])
  have env: "g_get_environ w2 = (Some (Suc (L + length ss)), w3)"
    by (simp add: g_get_environ_def Let_def w3_def w2_def L_def length_strv_block)
  have m3: "memory w3 = memory w @ strv_block (length (memory w)) (map c_str ss)
              @ strv_block (Suc (L + length ss)) (environ w)"
    by (simp add: w3_def w2_def L_def)
  have l3: "length (memory w3) = L + length ss + length (environ w) + 2"
    by (simp add: m3 length_strv_block L_def)
  have start: "Spawn w info =
          (let (path, w4) = g_strdup (read_string w3 (read_slot w3 (Some L) 0)) w3
           in (Scheduled \<lparr>spawn_path = path, spawn_argv = Some L,
                           spawn_envp = Some (Suc (L + length ss))\<rparr>, w4))"
    by (simp add: Spawn_def argv env)
  show ?thesis
  proof (cases ss)
    case Nil
    then have "read_slot w3 (Some L) 0 = None"
      by (simp add: read_slot_def cell_at_def m3 L_def strv_block_def following_def)
    with start Nil show ?thesis
      by (simp add: read_string_def g_strdup_def w3_def w2_def L_def)
  next
    case (Cons s ss')
    then have "read_slot w3 (Some L) 0 = Some (Suc L)"
      by (simp add: read_slot_def cell_at_def m3 L_def strv_block_def nth_append
          nth_following length_following)
    moreover have "read_string w3 (Some (Suc (length (memory w) + 0))) = Some (map c_str ss ! 0)"
      by (rule read_string_block [OF m3]) (simp add: Cons)
    ultimately have "read_string w3 (read_slot w3 (Some L) 0) = Some (c_str s)"
      by (simp add: L_def Cons)
    with start Cons l3 show ?thesis
      by (simp add: g_strdup_def allocate_def w3_def w2_def L_def)
  qed
qed

lemma spawn_layout_reads:
  assumes m: "memory w = A @ strv_block (length A) xs
                @ strv_block (Suc (length A + length xs)) ys @ P"
  shows "map (read_string w) (strv_slots w (Some (length A))) = map Some xs"
    and "map (read_string w) (strv_slots w (Some (Suc (length A + length xs)))) = map Some ys"
    and "g_strv_length w (Some (length A)) = length xs"
    and "g_strv_length w (Some (Suc (length A + length xs))) = length ys"
    and "P = [Some (Chars p)] \<Longrightarrow>
         read_string w (Some (length A + length xs + length ys + 2)) = Some p"
proof -
  have m1: "memory w = A @ strv_block (length A) xs
              @ (strv_block (Suc (length A + length xs)) ys @ P)"
    using m by simp
  have m2: "memory w = (A @ strv_block (length A) xs)
              @ strv_block (length (A @ strv_block (length A) xs)) ys @ P"
    using m by (simp add: length_strv_block)
  have l2: "length (A @ strv_block (length A) xs) = Suc (length A + length xs)"
    by (simp add: length_strv_block)
  show "map (read_string w) (strv_slots w (Some (length A))) = map Some xs"
    by (rule read_strings_block [OF m1])
  show "map (read_string w) (strv_slots w (Some (Suc (length A + length xs)))) = map Some ys"
    using read_strings_block [OF m2] by (simp only: l2)
  show "g_strv_length w (Some (length A)) = length xs"
    by (simp add: g_strv_length_def strv_slots_block [OF m1] length_following)
  show "g_strv_length w (Some (Suc (length A + length xs))) = length ys"
    using strv_slots_block [OF m2, unfolded l2]
    by (simp add: g_strv_length_def length_following)
  show "read_string w (Some (length A + length xs + length ys + 2)) = Some p"
    if "P = [Some (Chars p)]"
    using that m by (simp add: read_string_def cell_at_def nth_append length_strv_block)
qed

lemma spawn_layout_dtor:
  assumes m: "memory w = A @ strv_block (length A) xs
                @ strv_block (Suc (length A + length xs)) ys @ P"
      and p: "P = [] \<and> path = None
              \<or> (\<exists>p. P = [Some (Chars p)]) \<and> path = Some (length A + length xs + length ys + 2)"
  shows "g_free path (g_strfreev (Some (length A))
           (g_strfreev (Some (Suc (length A + length xs))) w)) =
         w\<lparr>memory := A @ replicate (length xs + length ys + 2 + length P) None,
           freed := freed w @ following (Suc (length A + length xs)) (length ys)
                    @ [Suc (length A + length xs)]
                    @ following (length A) (length xs) @ [length A]
                    @ (case path of None \<Rightarrow> [] | Some a \<Rightarrow> [a])\<rparr>"
proof -
  define w1 where "w1 = g_strfreev (Some (Suc (length A + length xs))) w"
  define w2 where "w2 = g_strfreev (Some (length A)) w1"
  have m2: "memory w = (A @ strv_block (length A) xs)
              @ strv_block (length (A @ strv_block (length A) xs)) ys @ P"
    using m by (simp add: length_strv_block)
  have l2: "length (A @ strv_block (length A) xs) = Suc (length A + length xs)"
    by (simp add: length_strv_block)
  have w1: "w1 = w\<lparr>memory := (A @ strv_block (length A) xs) @ replicate (Suc (length ys)) None @ P,
                   freed := freed w @ following (Suc (length A + length xs)) (length ys)
                            @ [Suc (length A + length xs)]\<rparr>"
    unfolding w1_def using g_strfreev_block [OF m2] by (simp only: l2)
  then have "memory w1 = A @ strv_block (length A) xs @ (replicate (Suc (length ys)) None @ P)"
    by simp
  from g_strfreev_block [OF this]
  have w2: "w2 = w\<lparr>memory := A @ replicate (Suc (length xs)) None
                      @ replicate (Suc (length ys)) None @ P,
                   freed := freed w @ following (Suc (length A + length xs)) (length ys)
                            @ [Suc (length A + length xs)]
                            @ following (length A) (length xs) @ [length A]\<rparr>"
    unfolding w2_def by (simp add: w1)
  from p show ?thesis
  proof
    assume "P = [] \<and> path = None"
    then show ?thesis
      unfolding w1_def [symmetric] w2_def [symmetric]
      by (simp add: w2 g_free_def replicate_add [symmetric] del: replicate_Suc)
  next
    assume "(\<exists>p. P = [Some (Chars p)]) \<and> path = Some (length A + length xs + length ys + 2)"
    then obtain p where P: "P = [Some (Chars p)]"
      and path: "path = Some (length A + length xs + length ys + 2)" by blast
    define R where "R = A @ replicate (Suc (length xs)) None @ replicate (Suc (length ys)) None"
    have lR: "length A + length xs + length ys + 2 = length R" by (simp add: R_def)
    have "replicate (Suc (length xs)) None @ replicate (Suc (length ys)) None @ [None :: cell option]
          = replicate (Suc (length xs)) None @ replicate (Suc (length ys)) None @ replicate 1 None"
      by simp
    also have "\<dots> = replicate (Suc (length xs) + (Suc (length ys) + 1)) None"
      by (simp only: replicate_add [symmetric])
    finally have rep: "R @ [None] = A @ replicate (length xs + length ys + 2 + 1) None"
      by (simp add: R_def)
    have upd: "(R @ [Some (Chars p)])[length R := None] = R @ [None]"
      by (rule list_update_length)
    have "(R @ [Some (Chars p)])[length A + length xs + length ys + 2 := None]
          = A @ replicate (length xs + length ys + 2 + 1) None"
      unfolding lR by (simp only: upd rep)
    then have "(A @ replicate (Suc (length xs)) None @ replicate (Suc (length ys)) None
             @ [Some (Chars p)])[length A + length xs + length ys + 2 := None]
          = A @ replicate (length xs + length ys + 2 + 1) None"
      by (simp only: R_def append_assoc)
    then show ?thesis
      unfolding w1_def [symmetric] w2_def [symmetric]
      by (simp add: w2 g_free_def P path)
  qed
qed


lemma copy_elements_NULL:
  "copy_elements None i es w = Some (argv, w') \<Longrightarrow> argv = None"
proof (cases es)
  case Nil
  assume "copy_elements None i es w = Some (argv, w')"
  with Nil show ?thesis by simp
next
  case (Cons e rest)
  assume *: "copy_elements None i es w = Some (argv, w')"
  show ?thesis
  proof (cases "IsString e")
    case True
    then obtain s where "e = JString s" by (cases e) auto
    with * Cons show ?thesis
      by (simp add: g_strdup_def allocate_def write_slot_def)
  next
    case False
    with * Cons show ?thesis by (simp add: copy_elements_non_string)
  qed
qed

lemma Spawn_argv_overflow:
  assumes "info ! 0 = JArray r" and "length (arrays w r) = 2 ^ 32 - 1"
      and "Spawn_argv w info = Some (argv, w')"
  shows "argv = None"
proof (cases "info = []")
  case True
  with assms(3) show ?thesis by (simp add: Spawn_argv_def)
next
  case False
  have "(word_of_nat (2 ^ 32 - 1) :: 32 word) + 1 = 0" by simp
  then have "unat ((word_of_nat (length (arrays w r)) :: 32 word) + 1) = 0"
    by (simp only: assms(2) unat_0)
  with assms(1,3) False
  have "copy_elements None 0
          (take (unat (word_of_nat (length (arrays w r)) :: 32 word)) (arrays w r)) w
        = Some (argv, w')"
    by (cases info) (simp_all add: Spawn_argv_def Let_def g_new0_def)
  then show ?thesis by (rule copy_elements_NULL)
qed

lemma Spawn_scheduled_strings:
  assumes "Spawn w info = (Scheduled op, w')"
      and "info ! 0 = JArray r" and "length (arrays w r) < 2 ^ 32"
  shows "info \<noteq> [] \<and> (\<exists>ss. arrays w r = map JString ss \<and> length ss < 2 ^ 32 - 1)"
proof -
  have ne: "info \<noteq> []"
  proof
    assume "info = []"
    then have "Spawn_argv w info = Some (None, w)" by (simp add: Spawn_argv_not_array)
    with assms(1) show False by (simp add: Spawn_def)
  qed
  have len: "length (arrays w r) < 2 ^ 32 - 1"
  proof (rule ccontr)
    assume "\<not> length (arrays w r) < 2 ^ 32 - 1"
    with assms(3) have l: "length (arrays w r) = 2 ^ 32 - 1" by simp
    show False
    proof (cases "Spawn_argv w info")
      case None
      with assms(1) show False by (simp add: Spawn_def)
    next
      case (Some res)
      obtain argv w2 where res: "res = (argv, w2)" by (cases res)
      with Some have "argv = None" using Spawn_argv_overflow [OF assms(2) l] by simp
      with Some res assms(1) show False by (simp add: Spawn_def)
    qed
  qed
  have "\<forall>v\<in>set (arrays w r). IsString v"
  proof (rule ccontr)
    assume "\<not> (\<forall>v\<in>set (arrays w r). IsString v)"
    then have "\<exists>v\<in>set (arrays w r). \<not> IsString v" by simp
    from split_at_non_string [OF this] obtain ss v rest
      where "arrays w r = map JString ss @ v # rest" and "\<not> IsString v" by blast
    from Spawn_argv_released [OF ne assms(2) this len] assms(1)
    show False by (simp add: Spawn_def)
  qed
  from all_strings [OF this] obtain ss where ss: "arrays w r = map JString ss" by blast
  with len have "arrays w r = map JString ss \<and> length ss < 2 ^ 32 - 1" by simp
  then have "\<exists>ss. arrays w r = map JString ss \<and> length ss < 2 ^ 32 - 1" by (rule exI)
  with ne show ?thesis by simp
qed

subsection \<open>Validation of the argv argument\<close>

text \<open>
  A rejected array leaves nothing behind, as long as \<^verbatim>\<open>length + 1\<close> does not wrap: the
  blocks of the strings copied so far and the block of the array are all released, each
  of them once, and the call throws.
\<close>

lemma Spawn_rejected_releases:
  assumes "info \<noteq> []" and "info ! 0 = JArray r"
      and "arrays w r = map JString ss @ v # rest" and "\<not> IsString v"
      and "length (arrays w r) < 2 ^ 32 - 1"
  shows "Spawn w info =
           (ThrowTypeError ''Bad argument, expected argv as an array of strings'',
            w\<lparr>memory := memory w @ replicate (Suc (length ss)) None,
              freed := freed w @ following (length (memory w)) (length ss)
                       @ [length (memory w)]\<rparr>)"
  by (rule Spawn_rejects) (rule Spawn_argv_released [OF assms])

text \<open>
  C1, as the code has it. A call of spawn whose argument is absent, is not an array, or
  is an array of fewer than \<open>2 ^ 32 - 1\<close> elements one of which is not a string throws
  the TypeError "Bad argument, expected argv as an array of strings" at the call site:
  the outcome carries no operation, hence no promise. An empty array is not rejected:
  the call creates and schedules an operation.
\<close>

theorem Spawn_validation_throws:
  "(info = [] \<or> \<not> IsArray (info ! 0)
      \<or> (\<exists>r. info ! 0 = JArray r \<and> length (arrays w r) < 2 ^ 32 - 1
               \<and> (\<exists>v\<in>set (arrays w r). \<not> IsString v))
    \<longrightarrow> fst (Spawn w info)
          = ThrowTypeError ''Bad argument, expected argv as an array of strings'')
   \<and> (info \<noteq> [] \<and> (\<exists>r. info ! 0 = JArray r \<and> arrays w r = [])
    \<longrightarrow> (\<exists>op. fst (Spawn w info) = Scheduled op))"
proof (intro conjI impI)
  assume bad: "info = [] \<or> \<not> IsArray (info ! 0)
      \<or> (\<exists>r. info ! 0 = JArray r \<and> length (arrays w r) < 2 ^ 32 - 1
               \<and> (\<exists>v\<in>set (arrays w r). \<not> IsString v))"
  show "fst (Spawn w info)
          = ThrowTypeError ''Bad argument, expected argv as an array of strings''"
  proof (cases "info = [] \<or> \<not> IsArray (info ! 0)")
    case True
    then have "Spawn_argv w info = Some (None, w)" by (rule Spawn_argv_not_array)
    then show ?thesis by (simp add: Spawn_rejects)
  next
    case False
    with bad obtain r where r: "info ! 0 = JArray r"
      and len: "length (arrays w r) < 2 ^ 32 - 1"
      and ex: "\<exists>v\<in>set (arrays w r). \<not> IsString v" by blast
    from False have ne: "info \<noteq> []" by simp
    from split_at_non_string [OF ex] obtain ss v rest
      where "arrays w r = map JString ss @ v # rest" and "\<not> IsString v" by blast
    from Spawn_rejected_releases [OF ne r this len] show ?thesis by simp
  qed
next
  assume "info \<noteq> [] \<and> (\<exists>r. info ! 0 = JArray r \<and> arrays w r = [])"
  then obtain r where "info \<noteq> []" and "info ! 0 = JArray r" and "arrays w r = map JString []"
    by auto
  from Spawn_accepts [OF this] show "\<exists>op. fst (Spawn w info) = Scheduled op" by simp
qed

theorem Spawn_validation_throws_witness:
  "fst (Spawn (fresh_world [JString ''/bin/true'', JNull]) [JArray 0])
     = ThrowTypeError ''Bad argument, expected argv as an array of strings''
   \<and> fst (Spawn (fresh_world []) [])
     = ThrowTypeError ''Bad argument, expected argv as an array of strings''
   \<and> fst (Spawn (fresh_world []) [JString ''not-an-array''])
     = ThrowTypeError ''Bad argument, expected argv as an array of strings''
   \<and> (\<exists>op. fst (Spawn (fresh_world []) [JArray 0]) = Scheduled op)"
proof -
  have a: "fst (Spawn (fresh_world [JString ''/bin/true'', JNull]) [JArray 0])
     = ThrowTypeError ''Bad argument, expected argv as an array of strings''"
    using Spawn_validation_throws [of "[JArray 0]" "fresh_world [JString ''/bin/true'', JNull]"]
    by (simp add: fresh_world_def)
  have b: "fst (Spawn (fresh_world []) [])
     = ThrowTypeError ''Bad argument, expected argv as an array of strings''"
    using Spawn_validation_throws [of "[]" "fresh_world []"] by simp
  have c: "fst (Spawn (fresh_world []) [JString ''not-an-array''])
     = ThrowTypeError ''Bad argument, expected argv as an array of strings''"
    using Spawn_validation_throws [of "[JString ''not-an-array'']" "fresh_world []"] by simp
  have d: "\<exists>op. fst (Spawn (fresh_world []) [JArray 0]) = Scheduled op"
    using Spawn_validation_throws [of "[JArray 0]" "fresh_world []"]
    by (simp add: fresh_world_def)
  from a b c d show ?thesis by simp
qed

text \<open>
  C1 as stated fails on the empty array: \<^verbatim>\<open>g_new0\<close> of one slot is not NULL, the
  loop does not run, and the call schedules an operation whose path is NULL.
\<close>

theorem Spawn_empty_array_not_rejected:
  "arrays (fresh_world []) 0 = []
   \<and> fst (Spawn (fresh_world []) [JArray 0])
       = Scheduled \<lparr>spawn_path = None, spawn_argv = Some 0, spawn_envp = Some 1\<rparr>
   \<and> fst (Spawn (fresh_world []) [JArray 0])
       \<noteq> ThrowTypeError ''Bad argument, expected argv as an array of strings''"
proof -
  have "arrays (fresh_world []) 0 = map JString []" by (simp add: fresh_world_def)
  from Spawn_accepts [of "[JArray 0]" 0, OF _ _ this]
  have "fst (Spawn (fresh_world []) [JArray 0])
       = Scheduled \<lparr>spawn_path = None, spawn_argv = Some 0, spawn_envp = Some 1\<rparr>"
    by (simp add: fresh_world_def)
  then show ?thesis by (simp add: fresh_world_def)
qed

text \<open>
  C10 on an array of \<open>2 ^ 32 - 1\<close> elements whose first element is a string and whose
  other elements are not (in the host: \<^verbatim>\<open>a = new Array(4294967295); a[0] = "/bin/ls"\<close>).
  \<^verbatim>\<open>length + 1\<close> wraps to 0, \<^verbatim>\<open>g_new0\<close> returns NULL and the first iteration stores
  through NULL: the call neither frees nor throws, the process crashes.
\<close>

theorem Spawn_length_overflow_crashes:
  "length (JString ''/bin/ls'' # replicate 4294967294 JUndefined) = 4294967295
   \<and> \<not> IsString (last (JString ''/bin/ls'' # replicate 4294967294 JUndefined))
   \<and> fst (Spawn (fresh_world (JString ''/bin/ls'' # replicate 4294967294 JUndefined))
           [JArray 0]) = Crash"
  by (simp add: Spawn_def Spawn_argv_def fresh_world_def g_new0_def g_strdup_def
      allocate_def write_slot_def)


subsection \<open>The copies that a SpawnOperation owns\<close>

text \<open>A string without a NUL byte is copied whole.\<close>

lemma c_str_whole: "CHR 0x00 \<notin> set s \<Longrightarrow> c_str s = s"
  by (auto simp: c_str_def takeWhile_eq_all_conv)

lemma owned_blocks:
  fixes L n e :: nat
  assumes "F = following (Suc (L + n)) e @ [Suc (L + n)] @ following L n @ [L] @ P"
      and "P = [] \<and> k = 0 \<or> P = [L + n + e + 2] \<and> k = 1"
  shows "distinct F \<and> set F = {L ..< L + (n + e + 2 + k)}"
proof -
  have m: "x \<in> set F \<longleftrightarrow> L \<le> x \<and> x < L + (n + e + 2 + k)" for x
  proof -
    have "x \<in> set F \<longleftrightarrow>
            (Suc (L + n) < x \<and> x \<le> Suc (L + n) + e) \<or> x = Suc (L + n)
            \<or> (L < x \<and> x \<le> L + n) \<or> x = L \<or> x \<in> set P"
      unfolding assms(1) by (simp only: set_append set_following Un_iff list.set insert_iff empty_iff) blast
    also have "\<dots> \<longleftrightarrow> L \<le> x \<and> x < L + (n + e + 2 + k)"
      using assms(2) by (elim disjE conjE) (simp_all, arith+)
    finally show ?thesis .
  qed
  then have s: "set F = {L ..< L + (n + e + 2 + k)}" by (intro set_eqI) simp
  have disj: "set (following (Suc (L + n)) e) \<inter> set (following L n) = {}"
  proof (intro equals0I)
    fix x assume "x \<in> set (following (Suc (L + n)) e) \<inter> set (following L n)"
    then have "Suc (L + n) < x" and "x \<le> L + n" by (simp_all add: set_following)
    then show False by simp
  qed
  have d: "distinct F"
    unfolding assms(1) using assms(2) disj
    by (elim disjE conjE) (simp_all add: distinct_following set_following)
  from d s show ?thesis by simp
qed

text \<open>
  C8. Let a spawn call on a host array pass validation, with the operation \<open>op\<close> and the
  world \<open>w'\<close> after the call. Then every element of the array is a string, and whatever
  happens to the host arrays and to the process environment afterwards:
  \<^item> \<^verbatim>\<open>Begin\<close> passes to the native spawn call the C strings of the elements as they
    were at the time of the call, their count, the first of them as the path (NULL when
    there is none) and the environment as it was at the time of the call;
  \<^item> the destructor releases every block that the call allocated and nothing else;
  \<^item> each of these blocks is freed exactly once.
\<close>

theorem Spawn_owns_copies:
  assumes "Spawn w info = (Scheduled op, w')"
      and "info ! 0 = JArray r" and "length (arrays w r) < 2 ^ 32"
  shows "\<exists>ss. arrays w r = map JString ss
     \<and> (\<forall>A E. SpawnOperation_Begin handle op (w'\<lparr>arrays := A, environ := E\<rparr>) =
           frida_device_spawn handle
             (case ss of [] \<Rightarrow> None | s # _ \<Rightarrow> Some (c_str s))
             (map (\<lambda>s. Some (c_str s)) ss) (length ss)
             (map Some (environ w)) (length (environ w)))
     \<and> (\<forall>A E. memory (SpawnOperation_dtor op (w'\<lparr>arrays := A, environ := E\<rparr>)) =
           memory w @ replicate (length (memory w') - length (memory w)) None)
     \<and> (\<forall>A E. \<exists>F. freed (SpawnOperation_dtor op (w'\<lparr>arrays := A, environ := E\<rparr>)) =
                    freed w @ F
              \<and> distinct F \<and> set F = {length (memory w) ..< length (memory w')})"
proof -
  from Spawn_scheduled_strings [OF assms] obtain ss
    where ne: "info \<noteq> []" and ss: "arrays w r = map JString ss"
      and len: "length ss < 2 ^ 32 - 1" by blast
  define L where "L = length (memory w)"
  define cs where "cs = map c_str ss"
  define P where "P = (case ss of [] \<Rightarrow> [] | s # _ \<Rightarrow> [Some (Chars (c_str s))])"
  define path where "path = (case ss of [] \<Rightarrow> None
                       | s # _ \<Rightarrow> Some (L + length cs + length (environ w) + 2))"
  have lcs: "length cs = length ss" by (simp add: cs_def)
  from Spawn_accepts [OF ne assms(2) ss len] assms(1)
  have op: "op = \<lparr>spawn_path = path, spawn_argv = Some L,
                   spawn_envp = Some (Suc (L + length cs))\<rparr>"
    and w': "w' = w\<lparr>memory := memory w @ strv_block L cs
                      @ strv_block (Suc (L + length cs)) (environ w) @ P\<rparr>"
    by (simp_all add: L_def cs_def P_def path_def split: list.split)
  have lw': "length (memory w') - length (memory w)
               = length cs + length (environ w) + 2 + length P"
    by (simp add: w' length_strv_block)
  have pcases: "P = [] \<and> path = None
              \<or> (\<exists>p. P = [Some (Chars p)]) \<and> path = Some (L + length cs + length (environ w) + 2)"
    by (cases ss) (simp_all add: P_def path_def)
  have call: "SpawnOperation_Begin handle op (w'\<lparr>arrays := A, environ := E\<rparr>) =
           frida_device_spawn handle
             (case ss of [] \<Rightarrow> None | s # _ \<Rightarrow> Some (c_str s))
             (map (\<lambda>s. Some (c_str s)) ss) (length ss)
             (map Some (environ w)) (length (environ w))" for A E
  proof -
    have m: "memory (w'\<lparr>arrays := A, environ := E\<rparr>) =
               memory w @ strv_block (length (memory w)) cs
                 @ strv_block (Suc (length (memory w) + length cs)) (environ w) @ P"
      by (simp add: w' L_def)
    have p: "read_string (w'\<lparr>arrays := A, environ := E\<rparr>) path
               = (case ss of [] \<Rightarrow> None | s # _ \<Rightarrow> Some (c_str s))"
    proof (cases ss)
      case Nil
      then show ?thesis by (simp add: path_def read_string_def)
    next
      case (Cons s ss')
      then have "P = [Some (Chars (c_str s))]" by (simp add: P_def)
      from spawn_layout_reads(5) [OF m this] Cons show ?thesis
        by (simp add: path_def L_def)
    qed
    show ?thesis
      unfolding SpawnOperation_Begin_def
      using spawn_layout_reads(1-4) [OF m] p
      by (simp add: op L_def cs_def comp_def)
  qed
  have dtor: "SpawnOperation_dtor op (w'\<lparr>arrays := A, environ := E\<rparr>) =
         (w'\<lparr>arrays := A, environ := E\<rparr>)
          \<lparr>memory := memory w @ replicate (length cs + length (environ w) + 2 + length P) None,
           freed := freed w @ following (Suc (L + length cs)) (length (environ w))
                    @ [Suc (L + length cs)]
                    @ following L (length cs) @ [L]
                    @ (case path of None \<Rightarrow> [] | Some a \<Rightarrow> [a])\<rparr>" for A E
  proof -
    have m: "memory (w'\<lparr>arrays := A, environ := E\<rparr>) =
               memory w @ strv_block (length (memory w)) cs
                 @ strv_block (Suc (length (memory w) + length cs)) (environ w) @ P"
      by (simp add: w' L_def)
    from pcases have "P = [] \<and> path = None
              \<or> (\<exists>p. P = [Some (Chars p)])
                \<and> path = Some (length (memory w) + length cs + length (environ w) + 2)"
      by (simp add: L_def)
    from spawn_layout_dtor [OF m this] show ?thesis
      by (simp add: SpawnOperation_dtor_def op L_def w')
  qed
  have mem: "memory (SpawnOperation_dtor op (w'\<lparr>arrays := A, environ := E\<rparr>)) =
           memory w @ replicate (length (memory w') - length (memory w)) None" for A E
    by (simp only: dtor lw') simp
  have fr: "\<exists>F. freed (SpawnOperation_dtor op (w'\<lparr>arrays := A, environ := E\<rparr>)) = freed w @ F
              \<and> distinct F \<and> set F = {length (memory w) ..< length (memory w')}" for A E
  proof -
    define F where "F = following (Suc (L + length cs)) (length (environ w))
                    @ [Suc (L + length cs)]
                    @ following L (length cs) @ [L]
                    @ (case path of None \<Rightarrow> [] | Some a \<Rightarrow> [a])"
    have "(case path of None \<Rightarrow> [] | Some a \<Rightarrow> [a]) = [] \<and> length P = 0
          \<or> (case path of None \<Rightarrow> [] | Some a \<Rightarrow> [a])
              = [L + length cs + length (environ w) + 2] \<and> length P = 1"
      using pcases by auto
    from owned_blocks [OF F_def this]
    have "distinct F \<and> set F = {L ..< L + (length cs + length (environ w) + 2 + length P)}" .
    moreover have "L + (length cs + length (environ w) + 2 + length P) = length (memory w')"
      by (simp add: w' length_strv_block L_def)
    moreover have "freed (SpawnOperation_dtor op (w'\<lparr>arrays := A, environ := E\<rparr>)) = freed w @ F"
      by (simp only: dtor F_def) simp
    ultimately have "freed (SpawnOperation_dtor op (w'\<lparr>arrays := A, environ := E\<rparr>)) = freed w @ F
              \<and> distinct F \<and> set F = {length (memory w) ..< length (memory w')}"
      by (simp add: L_def)
    then show ?thesis by (rule exI)
  qed
  from ss call mem fr
  have "arrays w r = map JString ss
     \<and> (\<forall>A E. SpawnOperation_Begin handle op (w'\<lparr>arrays := A, environ := E\<rparr>) =
           frida_device_spawn handle
             (case ss of [] \<Rightarrow> None | s # _ \<Rightarrow> Some (c_str s))
             (map (\<lambda>s. Some (c_str s)) ss) (length ss)
             (map Some (environ w)) (length (environ w)))
     \<and> (\<forall>A E. memory (SpawnOperation_dtor op (w'\<lparr>arrays := A, environ := E\<rparr>)) =
           memory w @ replicate (length (memory w') - length (memory w)) None)
     \<and> (\<forall>A E. \<exists>F. freed (SpawnOperation_dtor op (w'\<lparr>arrays := A, environ := E\<rparr>)) =
                    freed w @ F
              \<and> distinct F \<and> set F = {length (memory w) ..< length (memory w')})"
    by blast
  then show ?thesis by (rule exI)
qed

theorem Spawn_owns_copies_witness:
  "\<exists>op w'. Spawn (fresh_world [JString ''/bin/true'', JString ''-v'']) [JArray 0]
              = (Scheduled op, w')
     \<and> length (arrays (fresh_world [JString ''/bin/true'', JString ''-v'']) 0) < 2 ^ 32
     \<and> (\<forall>A E. SpawnOperation_Begin 7 op (w'\<lparr>arrays := A, environ := E\<rparr>) =
           frida_device_spawn 7 (Some ''/bin/true'') [Some ''/bin/true'', Some ''-v''] 2
             [Some ''HOME=/root'', Some ''PATH=/bin''] 2)
     \<and> (\<forall>A E. memory (SpawnOperation_dtor op (w'\<lparr>arrays := A, environ := E\<rparr>)) =
           replicate 7 None)"
proof -
  define w0 where "w0 = fresh_world [JString ''/bin/true'', JString ''-v'']"
  have a: "arrays w0 0 = map JString [''/bin/true'', ''-v'']"
    by (simp add: w0_def fresh_world_def)
  have len: "length (arrays w0 0) < 2 ^ 32" by (simp add: a)
  from Spawn_accepts [of "[JArray 0]" 0 w0, OF _ _ a]
  obtain op w' where sp: "Spawn w0 [JArray 0] = (Scheduled op, w')"
    and lw: "length (memory w') = 7" and mw: "memory w0 = []" and ew: "environ w0 = [''HOME=/root'', ''PATH=/bin'']"
    by (simp add: w0_def fresh_world_def length_strv_block)
  have i0: "[JArray 0] ! 0 = JArray 0" by simp
  from Spawn_owns_copies [OF sp i0 len, of 7] obtain ss
    where ss: "arrays w0 0 = map JString ss"
      and call: "\<forall>A E. SpawnOperation_Begin 7 op (w'\<lparr>arrays := A, environ := E\<rparr>) =
           frida_device_spawn 7
             (case ss of [] \<Rightarrow> None | s # _ \<Rightarrow> Some (c_str s))
             (map (\<lambda>s. Some (c_str s)) ss) (length ss)
             (map Some (environ w0)) (length (environ w0))"
      and mem: "\<forall>A E. memory (SpawnOperation_dtor op (w'\<lparr>arrays := A, environ := E\<rparr>)) =
           memory w0 @ replicate (length (memory w') - length (memory w0)) None"
    by blast
  from ss a have "map JString ss = map JString [''/bin/true'', ''-v'']" by simp
  then have ss': "ss = [''/bin/true'', ''-v'']"
    by (simp add: inj_on_def map_eq_Cons_conv)
  have "Spawn w0 [JArray 0] = (Scheduled op, w')
     \<and> length (arrays w0 0) < 2 ^ 32
     \<and> (\<forall>A E. SpawnOperation_Begin 7 op (w'\<lparr>arrays := A, environ := E\<rparr>) =
           frida_device_spawn 7 (Some ''/bin/true'') [Some ''/bin/true'', Some ''-v''] 2
             [Some ''HOME=/root'', Some ''PATH=/bin''] 2)
     \<and> (\<forall>A E. memory (SpawnOperation_dtor op (w'\<lparr>arrays := A, environ := E\<rparr>)) =
           replicate 7 None)"
    using sp len call mem by (simp add: ss' lw mw ew c_str_def)
  then show ?thesis unfolding w0_def by blast
qed

subsection \<open>Completion of resume, kill and spawn\<close>

text \<open>
  C7. When the native finish call reports no error, a resume and a kill operation fulfil
  their future with the host value undefined, and a spawn operation fulfils its future
  with the host number whose value is the process id that the finish call returned, read
  as an unsigned 32-bit integer. The world is left as it was.
\<close>

theorem resume_kill_spawn_results:
  "Operation_finish ResumeOperation_End ResumeOperation_Result ((), None) w
     = (Fulfilled JUndefined, w)
   \<and> Operation_finish KillOperation_End KillOperation_Result ((), None) w
     = (Fulfilled JUndefined, w)
   \<and> Operation_finish SpawnOperation_End SpawnOperation_Result (pid, None) w
     = (Fulfilled (JNumber (Fin (real (unat pid)))), w)"
  by (simp add: Operation_finish_def ResumeOperation_End_def ResumeOperation_Result_def
      KillOperation_End_def KillOperation_Result_def SpawnOperation_End_def
      SpawnOperation_Result_def)

subsection \<open>Completion of getFrontmostApplication\<close>

text \<open>
  C3. When the native finish call reports no error: if it returns a NULL application
  the future is fulfilled with null and the world is left as it was; if it returns a
  handle the future is fulfilled with an Application wrapper of that handle, the
  wrapper takes its own reference and the returned reference is released after that.
  Whatever the finish call returns, without an error the future is fulfilled, never
  rejected.
\<close>

theorem frontmost_application_result:
  "Operation_finish GetFrontmostApplicationOperation_End
       GetFrontmostApplicationOperation_Result (None, None) w
     = (Fulfilled JNull, w)
   \<and> fst (Operation_finish GetFrontmostApplicationOperation_End
       GetFrontmostApplicationOperation_Result (Some a, None) w)
     = Fulfilled (JWrapper ApplicationKind a (next_id w))
   \<and> trace (snd (Operation_finish GetFrontmostApplicationOperation_End
       GetFrontmostApplicationOperation_Result (Some a, None) w))
     = trace w @ [Wrapped ApplicationKind a, Ref a, Unref a]
   \<and> refcount (snd (Operation_finish GetFrontmostApplicationOperation_End
       GetFrontmostApplicationOperation_Result (Some a, None) w))
     = refcount w
   \<and> (\<exists>v. fst (Operation_finish GetFrontmostApplicationOperation_End
       GetFrontmostApplicationOperation_Result (application, None) w) = Fulfilled v)"
  by (cases application)
     (simp_all add: Operation_finish_def GetFrontmostApplicationOperation_End_def
      GetFrontmostApplicationOperation_Result_def Wrapper_New_def g_object_ref_def
      g_object_unref_def)

subsection \<open>The reference of a Device wrapper\<close>

text \<open>No memory operation of spawn touches a reference count.\<close>

lemma allocate_objects:
  "allocate c w = (a, w') \<Longrightarrow> trace w' = trace w \<and> refcount w' = refcount w"
  by (auto simp: allocate_def)

lemma g_free_objects: "trace (g_free p w) = trace w \<and> refcount (g_free p w) = refcount w"
  by (cases p) (simp_all add: g_free_def)

lemma fold_g_free_objects:
  "trace (fold g_free ps w) = trace w \<and> refcount (fold g_free ps w) = refcount w"
  by (induction ps arbitrary: w) (simp_all add: g_free_objects)

lemma g_strfreev_objects:
  "trace (g_strfreev p w) = trace w \<and> refcount (g_strfreev p w) = refcount w"
  by (cases p) (simp_all add: g_strfreev_def g_free_objects fold_g_free_objects)

lemma g_strdup_objects:
  "g_strdup s w = (p, w') \<Longrightarrow> trace w' = trace w \<and> refcount w' = refcount w"
  by (cases s) (auto simp: g_strdup_def allocate_def)

lemma write_slot_objects:
  "write_slot arr i p w = Some w' \<Longrightarrow> trace w' = trace w \<and> refcount w' = refcount w"
  by (auto simp: write_slot_def split: option.splits cell.splits if_splits)

lemma copy_elements_objects:
  "copy_elements argv i es w = Some (argv', w') \<Longrightarrow>
   trace w' = trace w \<and> refcount w' = refcount w"
proof (induction argv i es w rule: copy_elements.induct)
  case (1 argv i w)
  then show ?case by simp
next
  case (2 argv i element rest w)
  obtain p w1 where d: "g_strdup (Some (c_str element)) w = (p, w1)"
    by (cases "g_strdup (Some (c_str element)) w")
  with "2.prems" obtain w2 where wr: "write_slot argv i p w1 = Some w2"
    and rec: "copy_elements argv (Suc i) rest w2 = Some (argv', w')"
    by (auto split: option.splits)
  from "2.IH" [OF d [symmetric] refl wr rec] g_strdup_objects [OF d] write_slot_objects [OF wr]
  show ?case by simp
qed (auto simp: g_strfreev_objects)

lemma Spawn_objects:
  "trace (snd (Spawn w info)) = trace w \<and> refcount (snd (Spawn w info)) = refcount w"
proof (cases "Spawn_argv w info")
  case None
  then show ?thesis by (simp add: Spawn_def)
next
  case (Some res)
  obtain argv w2 where res: "res = (argv, w2)" by (cases res)
  have w2: "trace w2 = trace w \<and> refcount w2 = refcount w"
  proof (cases "1 \<le> length info \<and> IsArray (info ! 0)")
    case False
    with Some res show ?thesis by (auto simp: Spawn_argv_def)
  next
    case True
    then obtain r where r: "info ! 0 = JArray r" by (cases "info ! 0") auto
    obtain a0 w1 where n: "g_new0 (unat ((word_of_nat (length (arrays w r)) :: 32 word) + 1)) w = (a0, w1)"
      by (cases "g_new0 (unat ((word_of_nat (length (arrays w r)) :: 32 word) + 1)) w")
    then have "trace w1 = trace w \<and> refcount w1 = refcount w"
      by (auto simp: g_new0_def allocate_def split: if_splits)
    moreover from Some res True r n
    have "copy_elements a0 0
            (take (unat (word_of_nat (length (arrays w r)) :: 32 word)) (arrays w r)) w1
          = Some (argv, w2)"
      by (simp add: Spawn_argv_def Let_def)
    ultimately show ?thesis using copy_elements_objects by metis
  qed
  show ?thesis
  proof (cases argv)
    case None
    with Some res w2 show ?thesis by (simp add: Spawn_def)
  next
    case (Some a)
    with \<open>Spawn_argv w info = Some res\<close> res w2 show ?thesis
      by (simp add: Spawn_def g_get_environ_def Let_def g_strdup_def allocate_def
          split: option.splits prod.splits)
  qed
qed

lemma fold_Spawn_objects:
  "trace (fold (\<lambda>info w. snd (Spawn w info)) calls w) = trace w
   \<and> refcount (fold (\<lambda>info w. snd (Spawn w info)) calls w) = refcount w"
  by (induction calls arbitrary: w) (simp_all add: Spawn_objects)

text \<open>
  C5. Constructing a Device wrapper on the handle \<open>h\<close> acquires one reference to \<open>h\<close>.
  Up to the destructor, whatever calls are made, that acquisition is all that the trace
  has gained: nothing is released and the count of \<open>h\<close> is one above its old value. The
  destructor releases one reference to \<open>h\<close>: over the whole life the trace gains exactly
  the acquisition followed by the release, and every reference count is back at its
  old value.
\<close>

theorem Device_reference_lifetime:
  "(case Device_used h calls w of
      (d, w2) \<Rightarrow> device_handle d = h \<and> trace w2 = trace w @ [Ref h]
                \<and> refcount w2 = (refcount w)(h := Suc (refcount w h)))
   \<and> trace (Device_lifetime h calls w) = trace w @ [Ref h, Unref h]
   \<and> refcount (Device_lifetime h calls w) = refcount w"
  by (simp add: Device_lifetime_def Device_used_def Device_ctor_def Device_dtor_def
      frida_unref_def g_object_unref_def fold_Spawn_objects g_object_ref_def)

subsection \<open>Completion of enumerateApplications and enumerateProcesses\<close>

lemma step_fields:
  "native_list (g_object_ref h w) = native_list w"
  "native_list (g_object_unref h w) = native_list w"
  "native_list (snd (Wrapper_New k h w)) = native_list w"
  "native_list (Nan_Set arr i v w) = native_list w"
  "next_id (g_object_ref h w) = next_id w"
  "next_id (g_object_unref h w) = next_id w"
  "next_id (snd (Wrapper_New k h w)) = Suc (next_id w)"
  "next_id (Nan_Set arr i v w) = next_id w"
  "arrays (g_object_ref h w) = arrays w"
  "arrays (g_object_unref h w) = arrays w"
  "arrays (snd (Wrapper_New k h w)) = arrays w"
  "trace (g_object_ref h w) = trace w @ [Ref h]"
  "trace (g_object_unref h w) = trace w @ [Unref h]"
  "trace (snd (Wrapper_New k h w)) = trace w @ [Wrapped k h, Ref h]"
  "trace (Nan_Set arr i v w) = trace w"
  "fst (Wrapper_New k h w) = JWrapper k h (next_id w)"
  by (simp_all add: g_object_ref_def g_object_unref_def Wrapper_New_def Nan_Set_def)

text \<open>One iteration of the loop, as a function of the world.\<close>

lemma wrap_elements_Suc:
  "wrap_elements k lst arr i (Suc n) w =
     wrap_elements k lst arr (Suc i) n
       (g_object_unref (native_list w lst ! i)
          (Nan_Set arr i (JWrapper k (native_list w lst ! i) (next_id w))
             (snd (Wrapper_New k (native_list w lst ! i)
                (g_object_ref (native_list w lst ! i) w)))))"
  by (simp add: frida_list_get_def Let_def split_beta step_fields)

lemma wrap_elements_native_list:
  "native_list (wrap_elements k lst arr i n w) = native_list w"
  by (induction n arbitrary: i w) (simp_all only: wrap_elements.simps(1) wrap_elements_Suc step_fields)

lemma wrap_elements_next_id:
  "next_id (wrap_elements k lst arr i n w) = next_id w + n"
  by (induction n arbitrary: i w)
     (simp_all only: wrap_elements.simps(1) wrap_elements_Suc step_fields add_0_right add_Suc_right add_Suc)

lemma wrap_elements_trace:
  "i + n \<le> length (native_list w lst) \<Longrightarrow>
   trace (wrap_elements k lst arr i n w)
     = trace w @ concat (map (element_events k) (take n (drop i (native_list w lst))))"
proof (induction n arbitrary: i w)
  case 0
  then show ?case by simp
next
  case (Suc n)
  define h where "h = native_list w lst ! i"
  define w4 where "w4 = g_object_unref h (Nan_Set arr i (JWrapper k h (next_id w))
             (snd (Wrapper_New k h (g_object_ref h w))))"
  have nl: "native_list w4 = native_list w" by (simp add: w4_def step_fields)
  have tr: "trace w4 = trace w @ element_events k h"
    by (simp add: w4_def step_fields element_events_def)
  from Suc.prems have i: "i < length (native_list w lst)" by simp
  then have d: "drop i (native_list w lst) = h # drop (Suc i) (native_list w lst)"
    by (simp add: h_def Cons_nth_drop_Suc)
  from Suc.prems have "Suc i + n \<le> length (native_list w4 lst)" by (simp add: nl)
  from Suc.IH [OF this]
  have "trace (wrap_elements k lst arr (Suc i) n w4)
     = trace w4 @ concat (map (element_events k) (take n (drop (Suc i) (native_list w lst))))"
    by (simp add: nl)
  then show ?case
    unfolding wrap_elements_Suc h_def [symmetric] w4_def [symmetric]
    by (simp add: tr d)
qed

lemma wrap_elements_arrays:
  "i + n \<le> length (arrays w arr) \<Longrightarrow>
   arrays (wrap_elements k lst arr i n w) arr
     = take i (arrays w arr)
       @ map (\<lambda>j. JWrapper k (native_list w lst ! (i + j)) (next_id w + j)) [0 ..< n]
       @ drop (i + n) (arrays w arr)"
proof (induction n arbitrary: i w)
  case 0
  then show ?case by simp
next
  case (Suc n)
  define h where "h = native_list w lst ! i"
  define W where "W = JWrapper k h (next_id w)"
  define w4 where "w4 = g_object_unref h (Nan_Set arr i W
             (snd (Wrapper_New k h (g_object_ref h w))))"
  from Suc.prems have i: "i < length (arrays w arr)" by simp
  have nl: "native_list w4 = native_list w" by (simp add: w4_def step_fields)
  have ni: "next_id w4 = Suc (next_id w)" by (simp add: w4_def step_fields)
  have ar: "arrays w4 arr = (arrays w arr)[i := W]"
    using i by (simp add: w4_def step_fields Nan_Set_def)
  from Suc.prems have "Suc i + n \<le> length (arrays w4 arr)" by (simp add: ar)
  from Suc.IH [OF this]
  have "arrays (wrap_elements k lst arr (Suc i) n w4) arr
     = take (Suc i) ((arrays w arr)[i := W])
       @ map (\<lambda>j. JWrapper k (native_list w lst ! (Suc i + j)) (Suc (next_id w) + j)) [0 ..< n]
       @ drop (Suc i + n) ((arrays w arr)[i := W])"
    by (simp only: nl ni ar)
  moreover have "take (Suc i) ((arrays w arr)[i := W]) = take i (arrays w arr) @ [W]"
    using i by (simp add: take_Suc_conv_app_nth)
  moreover have "drop (Suc i + n) ((arrays w arr)[i := W]) = drop (i + Suc n) (arrays w arr)"
    by simp
  moreover have "map (\<lambda>j. JWrapper k (native_list w lst ! (i + j)) (next_id w + j)) [0 ..< Suc n]
      = W # map (\<lambda>j. JWrapper k (native_list w lst ! (Suc i + j)) (Suc (next_id w) + j)) [0 ..< n]"
    by (simp add: W_def h_def upt_conv_Cons map_Suc_upt [symmetric] del: upt_Suc)
  ultimately show ?case
    unfolding wrap_elements_Suc h_def [symmetric] W_def [symmetric] w4_def [symmetric]
    by (simp only: append_assoc append_Cons append_Nil)
qed


lemma enumerate_closed:
  fixes w :: world and lst :: gobject and k :: kind
  defines "w1 \<equiv> w\<lparr>next_id := Suc (next_id w),
                    arrays := (arrays w)(next_id w := replicate (length (native_list w lst)) JUndefined)\<rparr>"
  defines "w3 \<equiv> g_object_unref lst
                  (wrap_elements k lst (next_id w) 0 (length (native_list w lst)) w1)"
  shows "arrays w3 (next_id w)
           = map (\<lambda>i. JWrapper k (native_list w lst ! i) (Suc (next_id w + i)))
               [0 ..< length (native_list w lst)]"
    and "trace w3 = trace w @ concat (map (element_events k) (native_list w lst)) @ [Unref lst]"
proof -
  have nl: "native_list w1 = native_list w" by (simp add: w1_def)
  have "0 + length (native_list w lst) \<le> length (arrays w1 (next_id w))"
    by (simp add: w1_def)
  from wrap_elements_arrays [OF this, of k lst]
  show "arrays w3 (next_id w)
           = map (\<lambda>i. JWrapper k (native_list w lst ! i) (Suc (next_id w + i)))
               [0 ..< length (native_list w lst)]"
    by (simp add: w3_def step_fields nl) (simp add: w1_def)
  have "0 + length (native_list w lst) \<le> length (native_list w1 lst)"
    by (simp add: nl)
  from wrap_elements_trace [OF this, of k "next_id w"]
  show "trace w3 = trace w @ concat (map (element_events k) (native_list w lst)) @ [Unref lst]"
    by (simp add: w3_def step_fields nl) (simp add: w1_def)
qed

text \<open>
  C4. When the native finish call reports no error, an enumerateApplications (an
  enumerateProcesses) operation fulfils its future with a new host array. The array has
  the length of the native list, and its element at index \<open>i\<close> is an Application (a
  Process) wrapper of the element of the native list at index \<open>i\<close>. The trace gains,
  element after element in the order of the list, the reference handed out by the
  list, the wrapper with its own reference and directly after it the release of the
  handed-out reference; the release of the list itself comes last.
\<close>

theorem enumerate_results:
  "fst (Operation_finish EnumerateApplicationsOperation_End
          EnumerateApplicationsOperation_Result (lst, None) w)
     = Fulfilled (JArray (next_id w))
   \<and> arrays (snd (Operation_finish EnumerateApplicationsOperation_End
          EnumerateApplicationsOperation_Result (lst, None) w)) (next_id w)
     = map (\<lambda>i. JWrapper ApplicationKind (native_list w lst ! i) (Suc (next_id w + i)))
         [0 ..< length (native_list w lst)]
   \<and> length (arrays (snd (Operation_finish EnumerateApplicationsOperation_End
          EnumerateApplicationsOperation_Result (lst, None) w)) (next_id w))
     = length (native_list w lst)
   \<and> trace (snd (Operation_finish EnumerateApplicationsOperation_End
          EnumerateApplicationsOperation_Result (lst, None) w))
     = trace w @ concat (map (element_events ApplicationKind) (native_list w lst)) @ [Unref lst]
   \<and> fst (Operation_finish EnumerateProcessesOperation_End
          EnumerateProcessesOperation_Result (lst, None) w)
     = Fulfilled (JArray (next_id w))
   \<and> arrays (snd (Operation_finish EnumerateProcessesOperation_End
          EnumerateProcessesOperation_Result (lst, None) w)) (next_id w)
     = map (\<lambda>i. JWrapper ProcessKind (native_list w lst ! i) (Suc (next_id w + i)))
         [0 ..< length (native_list w lst)]
   \<and> length (arrays (snd (Operation_finish EnumerateProcessesOperation_End
          EnumerateProcessesOperation_Result (lst, None) w)) (next_id w))
     = length (native_list w lst)
   \<and> trace (snd (Operation_finish EnumerateProcessesOperation_End
          EnumerateProcessesOperation_Result (lst, None) w))
     = trace w @ concat (map (element_events ProcessKind) (native_list w lst)) @ [Unref lst]"
proof -
  have a: "Operation_finish EnumerateApplicationsOperation_End
          EnumerateApplicationsOperation_Result (lst, None) w
        = (Fulfilled (JArray (next_id w)),
           g_object_unref lst
             (wrap_elements ApplicationKind lst (next_id w) 0 (length (native_list w lst))
                (w\<lparr>next_id := Suc (next_id w),
                   arrays := (arrays w)(next_id w :=
                      replicate (length (native_list w lst)) JUndefined)\<rparr>)))"
    by (simp add: Operation_finish_def EnumerateApplicationsOperation_End_def
        EnumerateApplicationsOperation_Result_def Nan_New_Array_def Let_def)
  have p: "Operation_finish EnumerateProcessesOperation_End
          EnumerateProcessesOperation_Result (lst, None) w
        = (Fulfilled (JArray (next_id w)),
           g_object_unref lst
             (wrap_elements ProcessKind lst (next_id w) 0 (length (native_list w lst))
                (w\<lparr>next_id := Suc (next_id w),
                   arrays := (arrays w)(next_id w :=
                      replicate (length (native_list w lst)) JUndefined)\<rparr>)))"
    by (simp add: Operation_finish_def EnumerateProcessesOperation_End_def
        EnumerateProcessesOperation_Result_def Nan_New_Array_def Let_def)
  show ?thesis
    unfolding a p fst_conv snd_conv enumerate_closed by simp
qed

theorem enumerate_results_witness:
  "fst (Operation_finish EnumerateApplicationsOperation_End
          EnumerateApplicationsOperation_Result (100, None) listing_world)
     = Fulfilled (JArray 10)
   \<and> arrays (snd (Operation_finish EnumerateApplicationsOperation_End
          EnumerateApplicationsOperation_Result (100, None) listing_world)) 10
     = [JWrapper ApplicationKind 21 11, JWrapper ApplicationKind 22 12,
        JWrapper ApplicationKind 22 13]
   \<and> trace (snd (Operation_finish EnumerateApplicationsOperation_End
          EnumerateApplicationsOperation_Result (100, None) listing_world))
     = [Ref 21, Wrapped ApplicationKind 21, Ref 21, Unref 21,
        Ref 22, Wrapped ApplicationKind 22, Ref 22, Unref 22,
        Ref 22, Wrapped ApplicationKind 22, Ref 22, Unref 22, Unref 100]"
proof -
  have n: "native_list listing_world 100 = [21, 22, 22]" and i: "next_id listing_world = 10"
    and t: "trace listing_world = []"
    by (simp_all add: listing_world_def)
  have u: "[0 ..< 3] = [0, 1, 2]" by (simp add: upt_rec)
  from enumerate_results [of 100 listing_world] show ?thesis
    by (simp add: n i t u element_events_def)
qed

end
